theory Spec2Isabelle
  imports Complex_Main "HOL-Library.Multiset" "HOL-Library.Sublist"
begin

section \<open>Pair selection for pairs trading: \<open>jupyter-py/pair_selector.py\<close>\<close>

subsection \<open>Numeric values\<close>

text \<open>
  The cells of the price table, the scores and the p-values are numpy \<open>float64\<close>
  values: IEEE 754 binary64. A finite value is written as the real number it denotes, and
  an arithmetic result is the exact result rounded to the nearest binary64 value, ties to
  the even significand: a significand of 53 bits, exponents from -1022 to 1023, gradual
  underflow to the subnormal numbers and to zero, overflow to an infinity. \<open>ulp64 x\<close>
  is the spacing of the binary64 values around \<open>x\<close>. The sign of a zero is not
  modelled: both zeros compare equal, and the only divisors of the program, a length and
  a standard deviation, are never the negative zero. numpy reports a division by zero,
  an overflow or an invalid operation with a \<open>RuntimeWarning\<close> and goes on with the
  infinity or the NaN; it does not raise.
\<close>

datatype float64 = Finite real | PInf | NInf | NaN

definition signed_inf :: "bool \<Rightarrow> float64" where
  "signed_inf positive = (if positive then PInf else NInf)"

definition round_half_even :: "real \<Rightarrow> int" where
  "round_half_even t =
     (let f = \<lfloor>t\<rfloor>; d = t - of_int f
      in if d < 1 / 2 then f else if 1 / 2 < d then f + 1 else if even f then f else f + 1)"

definition exponent64 :: "real \<Rightarrow> int" where
  "exponent64 x = max \<lfloor>log 2 \<bar>x\<bar>\<rfloor> (- 1022)"

definition ulp64 :: "real \<Rightarrow> real" where
  "ulp64 x = 2 powr of_int (exponent64 x - 52)"

definition overflow64 :: real where
  "overflow64 = 2 ^ 1024"

definition round64 :: "real \<Rightarrow> float64" where
  "round64 x =
     (if x = 0 then Finite 0
      else let y = of_int (round_half_even (x / ulp64 x)) * ulp64 x
           in if overflow64 \<le> \<bar>y\<bar> then signed_inf (0 < x) else Finite y)"

fun fl_neg :: "float64 \<Rightarrow> float64" where
  "fl_neg (Finite a) = Finite (- a)"
| "fl_neg PInf = NInf"
| "fl_neg NInf = PInf"
| "fl_neg NaN = NaN"

fun fl_add :: "float64 \<Rightarrow> float64 \<Rightarrow> float64" where
  "fl_add NaN y = NaN"
| "fl_add x NaN = NaN"
| "fl_add (Finite a) (Finite b) = round64 (a + b)"
| "fl_add PInf NInf = NaN"
| "fl_add NInf PInf = NaN"
| "fl_add PInf y = PInf"
| "fl_add x PInf = PInf"
| "fl_add NInf y = NInf"
| "fl_add x NInf = NInf"

definition fl_sub :: "float64 \<Rightarrow> float64 \<Rightarrow> float64" where
  "fl_sub x y = fl_add x (fl_neg y)"

fun fl_mul :: "float64 \<Rightarrow> float64 \<Rightarrow> float64" where
  "fl_mul NaN y = NaN"
| "fl_mul x NaN = NaN"
| "fl_mul (Finite a) (Finite b) = round64 (a * b)"
| "fl_mul (Finite a) PInf = (if a = 0 then NaN else signed_inf (0 < a))"
| "fl_mul (Finite a) NInf = (if a = 0 then NaN else signed_inf (a < 0))"
| "fl_mul PInf (Finite b) = (if b = 0 then NaN else signed_inf (0 < b))"
| "fl_mul NInf (Finite b) = (if b = 0 then NaN else signed_inf (b < 0))"
| "fl_mul PInf PInf = PInf"
| "fl_mul NInf NInf = PInf"
| "fl_mul PInf NInf = NInf"
| "fl_mul NInf PInf = NInf"

fun fl_div :: "float64 \<Rightarrow> float64 \<Rightarrow> float64" where
  "fl_div NaN y = NaN"
| "fl_div x NaN = NaN"
| "fl_div (Finite a) (Finite b) =
     (if b = 0 then (if a = 0 then NaN else signed_inf (0 < a)) else round64 (a / b))"
| "fl_div (Finite a) PInf = Finite 0"
| "fl_div (Finite a) NInf = Finite 0"
| "fl_div PInf (Finite b) = signed_inf (0 \<le> b)"
| "fl_div NInf (Finite b) = signed_inf (b < 0)"
| "fl_div PInf PInf = NaN"
| "fl_div PInf NInf = NaN"
| "fl_div NInf PInf = NaN"
| "fl_div NInf NInf = NaN"

fun fl_sqrt :: "float64 \<Rightarrow> float64" where
  "fl_sqrt (Finite a) = (if a < 0 then NaN else round64 (sqrt a))"
| "fl_sqrt PInf = PInf"
| "fl_sqrt NInf = NaN"
| "fl_sqrt NaN = NaN"

text \<open>The comparison \<open>x < y\<close>: false as soon as one side is NaN.\<close>

fun fl_less :: "float64 \<Rightarrow> float64 \<Rightarrow> bool" where
  "fl_less NaN y = False"
| "fl_less x NaN = False"
| "fl_less (Finite a) (Finite b) = (a < b)"
| "fl_less (Finite a) PInf = True"
| "fl_less (Finite a) NInf = False"
| "fl_less PInf y = False"
| "fl_less NInf NInf = False"
| "fl_less NInf y = True"

text \<open>\<open>x \<le> y\<close> on the same values, used to state that a list is in ascending order.\<close>

definition fl_le :: "float64 \<Rightarrow> float64 \<Rightarrow> bool" where
  "fl_le x y = (x \<noteq> NaN \<and> y \<noteq> NaN \<and> \<not> fl_less y x)"

text \<open>A value is finite when it is neither an infinity nor NaN.\<close>

definition is_finite :: "float64 \<Rightarrow> bool" where
  "is_finite v = (case v of Finite r \<Rightarrow> True | _ \<Rightarrow> False)"

subsection \<open>The price table and the exceptions\<close>

text \<open>
  A data frame is the ordered list of its columns, each a label with its series.
  \<open>df.columns.values.tolist()\<close> is the list of labels and \<open>df[name]\<close> looks a label
  up. pandas gives all columns of a frame the same index, hence the same length, and
  \<open>df[name]\<close> is one series only when the label occurs once: \<open>well_formed\<close> states
  both. For a label that occurs more than once pandas returns the frame of all its
  columns, a two-dimensional array, which this model does not represent: \<open>getitem\<close>
  then gives the first of them, and the model says what the code computes only on tables
  whose labels are distinct.
\<close>

type_synonym series = "float64 list"

type_synonym dataframe = "(string \<times> series) list"

datatype py_error = KeyError string | ValueError | LibraryError string

definition stock_names :: "dataframe \<Rightarrow> string list" where
  "stock_names df = map fst df"

definition getitem :: "dataframe \<Rightarrow> string \<Rightarrow> py_error + series" where
  "getitem df name = (case map_of df name of None \<Rightarrow> Inl (KeyError name) | Some s \<Rightarrow> Inr s)"

definition well_formed :: "dataframe \<Rightarrow> bool" where
  "well_formed df =
     (distinct (map fst df) \<and> (\<forall>c \<in> set df. \<forall>d \<in> set df. length (snd c) = length (snd d)))"

text \<open>
  The process state a call runs in: the table the caller owns, and what has been
  printed so far (one entry per \<open>print\<close> call).
\<close>

record world =
  table :: dataframe
  stdout :: "(float64 \<times> string \<times> string) list list"

subsection \<open>\<open>itertools.combinations(stock_names, 2)\<close>\<close>

text \<open>
  The 2-element combinations of a list, by position, in the order itertools emits them:
  all pairs that start with the first element, then those of the rest.
\<close>

fun combinations2 :: "'a list \<Rightarrow> ('a \<times> 'a) list" where
  "combinations2 [] = []"
| "combinations2 (x # xs) = map (Pair x) xs @ combinations2 xs"

definition stock_pairs :: "dataframe \<Rightarrow> (string \<times> string) list" where
  "stock_pairs df = combinations2 (stock_names df)"

subsection \<open>The cointegration screener \<open>coint\<close>\<close>

text \<open>
  statsmodels is not part of the repository: its four entry points are parameters.
  \<open>smts_coint y0 y1 trend\<close> is \<open>smts.coint(y0, y1, trend=trend)\<close>, whose result is the
  tuple (statistic, p-value, critical values); \<open>adfuller x\<close> is \<open>smts.adfuller(x)\<close>, whose
  result is the tuple (statistic, p-value, used lag, number of observations, critical
  values, best information criterion); \<open>add_constant\<close> is \<open>sm.add_constant\<close>, giving a
  design matrix as the list of its columns; \<open>OLS_fit_resid y x\<close> is
  \<open>sm.OLS(y, x).fit().resid\<close>. Each may raise.
\<close>

record coint_result =
  coint_t :: float64
  coint_pvalue :: float64
  coint_crit :: "float64 list"

record adf_result =
  adf_stat :: float64
  adf_pvalue :: float64
  adf_usedlag :: nat
  adf_nobs :: nat
  adf_crit :: "(string \<times> float64) list"
  adf_icbest :: float64

record statsmodels =
  smts_coint :: "series \<Rightarrow> series \<Rightarrow> string \<Rightarrow> py_error + coint_result"
  adfuller :: "series \<Rightarrow> py_error + adf_result"
  add_constant :: "series \<Rightarrow> series list"
  OLS_fit_resid :: "series \<Rightarrow> series list \<Rightarrow> py_error + series"

text \<open>An exception ends the computation: the rest runs only on a value.\<close>

definition and_then :: "'e + 'a \<Rightarrow> ('a \<Rightarrow> 'e + 'b) \<Rightarrow> 'e + 'b" where
  "and_then r f = (case r of Inl e \<Rightarrow> Inl e | Inr v \<Rightarrow> f v)"

text \<open>The body of the loop up to the comparison (lines 36 to 50): the p-value of one pair.\<close>

definition p_value_of :: "statsmodels \<Rightarrow> dataframe \<Rightarrow> bool \<Rightarrow> string \<times> string \<Rightarrow> py_error + float64" where
  "p_value_of lib df intercept pair =
     (case pair of (stock_1, stock_2) \<Rightarrow>
        if \<not> intercept then
          and_then (getitem df stock_1) (\<lambda>v1.
          and_then (getitem df stock_2) (\<lambda>v2.
          and_then (smts_coint lib v1 v2 ''c'') (\<lambda>r. Inr (coint_pvalue r))))
        else
          and_then (getitem df stock_1) (\<lambda>Y.
          and_then (getitem df stock_2) (\<lambda>X.
          and_then (OLS_fit_resid lib Y (add_constant lib X)) (\<lambda>resid.
          and_then (adfuller lib resid) (\<lambda>r. Inr (adf_pvalue r))))))"

text \<open>The loop over the pairs, with \<open>cointegrated_pairs\<close> as the accumulator.\<close>

fun coint_loop :: "statsmodels \<Rightarrow> dataframe \<Rightarrow> bool \<Rightarrow> float64 \<Rightarrow> (string \<times> string) list \<Rightarrow>
    (string \<times> string \<times> float64) list \<Rightarrow> py_error + (string \<times> string \<times> float64) list" where
  "coint_loop lib df intercept sig_level [] cointegrated_pairs = Inr cointegrated_pairs"
| "coint_loop lib df intercept sig_level (pair # rest) cointegrated_pairs =
     (case p_value_of lib df intercept pair of
        Inl e \<Rightarrow> Inl e
      | Inr p_value \<Rightarrow>
          coint_loop lib df intercept sig_level rest
            (if fl_less p_value sig_level
             then cointegrated_pairs @ [(fst pair, snd pair, p_value)]
             else cointegrated_pairs))"

definition coint :: "statsmodels \<Rightarrow> world \<Rightarrow> bool \<Rightarrow> float64 \<Rightarrow>
    (py_error + (string \<times> string \<times> float64) list) \<times> world" where
  "coint lib w intercept sig_level =
     (coint_loop lib (table w) intercept sig_level (stock_pairs (table w)) [], w)"

subsection \<open>The distance screener \<open>distance\<close>\<close>

text \<open>
  \<open>np.sum\<close> of a 1-d \<open>float64\<close> array is \<open>np.add.reduce\<close>: it starts from the
  identity 0 and adds the pairwise sum of the elements, which numpy computes as follows.
  Fewer than 8 elements are added one after the other from 0. Up to 128 elements are added
  into 8 accumulators, element \<open>i\<close> into accumulator \<open>i mod 8\<close>, for as long as a whole
  block of 8 is left; the accumulators are then added two by two and the elements left
  over are added one after the other. A longer array is cut in two, the first part of
  half the length rounded down to a multiple of 8, and the two sums are added.
\<close>

fun unroll8 :: "series \<Rightarrow> series \<Rightarrow> series \<times> series" where
  "unroll8 r xs =
     (if 8 \<le> length xs then unroll8 (map2 fl_add r (take 8 xs)) (drop 8 xs) else (r, xs))"

declare unroll8.simps [simp del]

definition block_sum :: "series \<Rightarrow> float64" where
  "block_sum xs =
     (case unroll8 (take 8 xs) (drop 8 xs) of
        (r, rest) \<Rightarrow>
          foldl fl_add
            (fl_add (fl_add (fl_add (r ! 0) (r ! 1)) (fl_add (r ! 2) (r ! 3)))
                    (fl_add (fl_add (r ! 4) (r ! 5)) (fl_add (r ! 6) (r ! 7))))
            rest)"

function pairwise_sum :: "series \<Rightarrow> float64" where
  "pairwise_sum xs =
     (if length xs < 8 then foldl fl_add (Finite 0) xs
      else if length xs \<le> 128 then block_sum xs
      else let half = length xs div 2; n2 = half - half mod 8
           in fl_add (pairwise_sum (take n2 xs)) (pairwise_sum (drop n2 xs)))"
  by pat_completeness auto
termination
  by (relation "measure length") auto

declare pairwise_sum.simps [simp del]

definition np_sum :: "series \<Rightarrow> float64" where
  "np_sum p = fl_add (Finite 0) (pairwise_sum p)"

text \<open>
  \<open>np.mean\<close> divides the sum by the number of elements. \<open>np.std\<close> (population:
  \<open>ddof = 0\<close>) subtracts the mean from each element, squares, takes the mean of the
  squares and its square root.
\<close>

definition np_mean :: "series \<Rightarrow> float64" where
  "np_mean p = fl_div (np_sum p) (Finite (real (length p)))"

definition np_std :: "series \<Rightarrow> float64" where
  "np_std p =
     (let arrmean = np_mean p;
          x = map (\<lambda>v. fl_sub v arrmean) p
      in fl_sqrt (fl_div (np_sum (map (\<lambda>d. fl_mul d d) x)) (Finite (real (length p)))))"

definition normalize_series :: "series \<Rightarrow> series" where
  "normalize_series p = map (\<lambda>v. fl_div (fl_sub v (np_mean p)) (np_std p)) p"

text \<open>
  \<open>p1 - p2\<close> on 1-d arrays: elementwise on equal lengths, an array of length one is
  broadcast, any other mismatch of shapes raises \<open>ValueError\<close>.
\<close>

definition np_sub :: "series \<Rightarrow> series \<Rightarrow> py_error + series" where
  "np_sub p1 p2 =
     (if length p1 = length p2 then Inr (map2 fl_sub p1 p2)
      else if length p1 = 1 then Inr (map (\<lambda>v. fl_sub (hd p1) v) p2)
      else if length p2 = 1 then Inr (map (\<lambda>v. fl_sub v (hd p2)) p1)
      else Inl ValueError)"

text \<open>Lines 87 to 91 on the two arrays of a pair.\<close>

definition series_dist :: "series \<Rightarrow> series \<Rightarrow> py_error + float64" where
  "series_dist p1 p2 =
     and_then (np_sub (normalize_series p1) (normalize_series p2)) (\<lambda>diff.
       Inr (np_sum (map (\<lambda>d. fl_mul d d) diff)))"

definition pair_dist :: "dataframe \<Rightarrow> string \<times> string \<Rightarrow> py_error + float64" where
  "pair_dist df pair =
     (case pair of (stock_1, stock_2) \<Rightarrow>
        and_then (getitem df stock_1) (\<lambda>p1.
        and_then (getitem df stock_2) (\<lambda>p2. series_dist p1 p2)))"

text \<open>The loop over the pairs, with \<open>scores_to_pairs\<close> as the accumulator.\<close>

fun distance_loop :: "dataframe \<Rightarrow> (string \<times> string) list \<Rightarrow> (float64 \<times> string \<times> string) list \<Rightarrow>
    py_error + (float64 \<times> string \<times> string) list" where
  "distance_loop df [] scores_to_pairs = Inr scores_to_pairs"
| "distance_loop df (pair # rest) scores_to_pairs =
     (case pair_dist df pair of
        Inl e \<Rightarrow> Inl e
      | Inr dist_value \<Rightarrow> distance_loop df rest (scores_to_pairs @ [(dist_value, pair)]))"

text \<open>
  \<open>sorted(xs, key=lambda x: x[0])\<close>: a stable sort that compares the keys with \<open><\<close>
  only. It is modelled by the stable insertion sort driven by the same comparison. On
  keys that \<open><\<close> orders totally (no NaN) every stable sort returns this list; so does
  every one, Python's included, when no key is less than another (the list is returned
  unchanged). On other lists with NaN keys the order Python returns depends on its merge
  strategy, and nothing below relies on the order the model gives them.
\<close>

fun insort_key0 :: "float64 \<times> 'a \<Rightarrow> (float64 \<times> 'a) list \<Rightarrow> (float64 \<times> 'a) list" where
  "insort_key0 x [] = [x]"
| "insort_key0 x (y # ys) =
     (if fl_less (fst y) (fst x) then y # insort_key0 x ys else x # y # ys)"

definition sorted_key0 :: "(float64 \<times> 'a) list \<Rightarrow> (float64 \<times> 'a) list" where
  "sorted_key0 xs = foldr insort_key0 xs []"

text \<open>The slice \<open>xs[:n]\<close>: a negative \<open>n\<close> counts from the end.\<close>

definition slice_to :: "'a list \<Rightarrow> int \<Rightarrow> 'a list" where
  "slice_to xs n = (if 0 \<le> n then take (nat n) xs else take (length xs - nat (- n)) xs)"

definition distance :: "world \<Rightarrow> int \<Rightarrow> (py_error + (string \<times> string) list) \<times> world" where
  "distance w n =
     (case distance_loop (table w) (stock_pairs (table w)) [] of
        Inl e \<Rightarrow> (Inl e, w)
      | Inr unsorted \<Rightarrow>
          (let scores_to_pairs = sorted_key0 unsorted;
               w' = w\<lparr>stdout := stdout w @ [slice_to scores_to_pairs 10]\<rparr>
           in if int (length scores_to_pairs) < n
              then (Inr (map snd scores_to_pairs), w')
              else (Inr (map snd (slice_to scores_to_pairs n)), w')))"

subsection \<open>Values and shapes of sums\<close>

text \<open>
  A sum of numbers computed in any order is the value of a tree of additions whose
  leaves are the numbers, with 0 where a summation starts from the identity.
\<close>

datatype sumtree = Zero | Leaf float64 | Node sumtree sumtree

fun tree_value :: "sumtree \<Rightarrow> float64" where
  "tree_value Zero = Finite 0"
| "tree_value (Leaf v) = v"
| "tree_value (Node l r) = fl_add (tree_value l) (tree_value r)"

fun tree_leaves :: "sumtree \<Rightarrow> float64 list" where
  "tree_leaves Zero = []"
| "tree_leaves (Leaf v) = [v]"
| "tree_leaves (Node l r) = tree_leaves l @ tree_leaves r"


subsection \<open>Example inputs\<close>

text \<open>
  Three instruments over two time steps, none constant: the first two have the same
  normalized series.
\<close>

definition prices :: dataframe where
  "prices = [(''A'', [Finite 0, Finite 4]), (''B'', [Finite 1, Finite 3]), (''C'', [Finite 3, Finite 1])]"

text \<open>The same table with a constant first column.\<close>

definition flat_prices :: dataframe where
  "flat_prices = [(''K'', [Finite 1, Finite 1]), (''B'', [Finite 1, Finite 3]), (''C'', [Finite 3, Finite 1])]"

definition two_columns :: dataframe where
  "two_columns = [(''K'', [Finite 1, Finite 1]), (''B'', [Finite 1, Finite 3])]"

text \<open>
  A stand-in for statsmodels, to run the cointegration screener on: the residuals of the
  regression are the dependent series itself, the unit-root test reports the first
  observation of its input as its p-value, and the direct test the first observation
  of its second series.
\<close>

definition first_or_nan :: "series \<Rightarrow> float64" where
  "first_or_nan x = (case x of [] \<Rightarrow> NaN | v # rest \<Rightarrow> v)"

definition stub_lib :: statsmodels where
  "stub_lib = \<lparr>
     smts_coint = (\<lambda>y0 y1 trend.
       Inr \<lparr>coint_t = Finite 0, coint_pvalue = first_or_nan y1, coint_crit = []\<rparr>),
     adfuller = (\<lambda>x.
       Inr \<lparr>adf_stat = Finite 0, adf_pvalue = first_or_nan x, adf_usedlag = 0, adf_nobs = length x,
            adf_crit = [], adf_icbest = Finite 0\<rparr>),
     add_constant = (\<lambda>x. [replicate (length x) (Finite 1), x]),
     OLS_fit_resid = (\<lambda>y x. Inr y)\<rparr>"

definition p_table :: dataframe where
  "p_table = [(''P'', [Finite (1 / 200)]), (''Q'', [Finite (1 / 100)]), (''R'', [NaN])]"

text \<open>The states a call starts in, nothing printed yet.\<close>

definition market :: world where
  "market = \<lparr>table = prices, stdout = []\<rparr>"

definition flat_market :: world where
  "flat_market = \<lparr>table = flat_prices, stdout = []\<rparr>"

definition two_market :: world where
  "two_market = \<lparr>table = two_columns, stdout = []\<rparr>"

definition lone_market :: world where
  "lone_market = \<lparr>table = [(''A'', [Finite 0, Finite 4])], stdout = []\<rparr>"

definition p_market :: world where
  "p_market = \<lparr>table = p_table, stdout = []\<rparr>"

text \<open>
  A library whose unit-root test raises, and a table-like object whose two columns
  differ in length (no pandas frame is such).
\<close>

definition failing_lib :: statsmodels where
  "failing_lib = stub_lib\<lparr>adfuller := (\<lambda>x. Inl (LibraryError ''sample size is too short''))\<rparr>"

definition ragged_market :: world where
  "ragged_market =
     \<lparr>table = [(''A'', [Finite 1, Finite 2]), (''B'', [Finite 1, Finite 2, Finite 3])], stdout = []\<rparr>"

subsection \<open>The screeners on a store of arrays\<close>

text \<open>
  To state that a call leaves the table alone, the arrays are put in a store: \<open>heap\<close>
  holds every array allocated so far, at its address, and \<open>frame\<close> gives each label of
  the table the address of its column. \<open>df[name]\<close> and \<open>df[name].values\<close> are that
  address: a view of the column, not a copy. An array expression of numpy (\<open>p - m\<close>,
  \<open>p / s\<close>, \<open>p1 - p2\<close>, \<open>diff * diff\<close>) allocates its result and leaves its operands as
  they are; an in-place operation would overwrite the array at the address of its left
  operand. \<open>np.mean\<close>, \<open>np.std\<close> and \<open>sum\<close> read the array they are given. The
  lists \<open>cointegrated_pairs\<close> and \<open>scores_to_pairs\<close> are created by each call.
\<close>

type_synonym addr = nat

record process =
  heap :: "series list"
  frame :: "(string \<times> addr) list"
  console :: "(float64 \<times> string \<times> string) list list"

definition alloc :: "series list \<Rightarrow> series \<Rightarrow> addr \<times> series list" where
  "alloc h s = (length h, h @ [s])"

definition column_of :: "(string \<times> addr) list \<Rightarrow> string \<Rightarrow> py_error + addr" where
  "column_of fr name = (case map_of fr name of None \<Rightarrow> Inl (KeyError name) | Some a \<Rightarrow> Inr a)"

definition normalize_at :: "series list \<Rightarrow> addr \<Rightarrow> addr \<times> series list" where
  "normalize_at h p =
     (case alloc h (map (\<lambda>v. fl_sub v (np_mean (h ! p))) (h ! p)) of
        (centered, h1) \<Rightarrow> alloc h1 (map (\<lambda>v. fl_div v (np_std (h1 ! p))) (h1 ! centered)))"

definition pair_dist_at :: "series list \<Rightarrow> (string \<times> addr) list \<Rightarrow> string \<times> string \<Rightarrow>
    (py_error + float64) \<times> series list" where
  "pair_dist_at h fr pair =
     (case pair of (stock_1, stock_2) \<Rightarrow>
        (case column_of fr stock_1 of
           Inl e \<Rightarrow> (Inl e, h)
         | Inr p1 \<Rightarrow>
             (case column_of fr stock_2 of
                Inl e \<Rightarrow> (Inl e, h)
              | Inr p2 \<Rightarrow>
                  (case normalize_at h p1 of
                     (z1, h1) \<Rightarrow>
                       (case normalize_at h1 p2 of
                          (z2, h2) \<Rightarrow>
                            (case np_sub (h2 ! z1) (h2 ! z2) of
                               Inl e \<Rightarrow> (Inl e, h2)
                             | Inr d \<Rightarrow>
                                 (case alloc h2 d of
                                    (diff, h3) \<Rightarrow>
                                      (case alloc h3 (map (\<lambda>v. fl_mul v v) (h3 ! diff)) of
                                         (sq, h4) \<Rightarrow> (Inr (np_sum (h4 ! sq)), h4)))))))))"

fun distance_loop_at :: "series list \<Rightarrow> (string \<times> addr) list \<Rightarrow> (string \<times> string) list \<Rightarrow>
    (float64 \<times> string \<times> string) list \<Rightarrow>
    (py_error + (float64 \<times> string \<times> string) list) \<times> series list" where
  "distance_loop_at h fr [] scores_to_pairs = (Inr scores_to_pairs, h)"
| "distance_loop_at h fr (pair # rest) scores_to_pairs =
     (case pair_dist_at h fr pair of
        (Inl e, h') \<Rightarrow> (Inl e, h')
      | (Inr dist_value, h') \<Rightarrow> distance_loop_at h' fr rest (scores_to_pairs @ [(dist_value, pair)]))"

definition distance_at :: "process \<Rightarrow> int \<Rightarrow> (py_error + (string \<times> string) list) \<times> process" where
  "distance_at pw n =
     (case distance_loop_at (heap pw) (frame pw) (combinations2 (map fst (frame pw))) [] of
        (Inl e, h) \<Rightarrow> (Inl e, pw\<lparr>heap := h\<rparr>)
      | (Inr unsorted, h) \<Rightarrow>
          (let scores_to_pairs = sorted_key0 unsorted;
               pw' = pw\<lparr>heap := h, console := console pw @ [slice_to scores_to_pairs 10]\<rparr>
           in if int (length scores_to_pairs) < n
              then (Inr (map snd scores_to_pairs), pw')
              else (Inr (map snd (slice_to scores_to_pairs n)), pw')))"

text \<open>
  The entry points of statsmodels on the store: each is given addresses and returns its
  result with the store it leaves. \<open>add_constant\<close> returns the addresses of the columns
  of the design matrix and \<open>OLS_call\<close> the address of the residuals.
\<close>

record statsmodels_calls =
  coint_call :: "series list \<Rightarrow> addr \<Rightarrow> addr \<Rightarrow> string \<Rightarrow> (py_error + coint_result) \<times> series list"
  adfuller_call :: "series list \<Rightarrow> addr \<Rightarrow> (py_error + adf_result) \<times> series list"
  add_constant_call :: "series list \<Rightarrow> addr \<Rightarrow> addr list \<times> series list"
  OLS_call :: "series list \<Rightarrow> addr \<Rightarrow> addr list \<Rightarrow> (py_error + addr) \<times> series list"

definition p_value_at :: "statsmodels_calls \<Rightarrow> series list \<Rightarrow> (string \<times> addr) list \<Rightarrow> bool \<Rightarrow>
    string \<times> string \<Rightarrow> (py_error + float64) \<times> series list" where
  "p_value_at calls h fr intercept pair =
     (case pair of (stock_1, stock_2) \<Rightarrow>
        (case column_of fr stock_1 of
           Inl e \<Rightarrow> (Inl e, h)
         | Inr a1 \<Rightarrow>
             (case column_of fr stock_2 of
                Inl e \<Rightarrow> (Inl e, h)
              | Inr a2 \<Rightarrow>
                  if \<not> intercept then
                    (case coint_call calls h a1 a2 ''c'' of
                       (Inl e, h') \<Rightarrow> (Inl e, h')
                     | (Inr r, h') \<Rightarrow> (Inr (coint_pvalue r), h'))
                  else
                    (case add_constant_call calls h a2 of
                       (X, h1) \<Rightarrow>
                         (case OLS_call calls h1 a1 X of
                            (Inl e, h2) \<Rightarrow> (Inl e, h2)
                          | (Inr resid, h2) \<Rightarrow>
                              (case adfuller_call calls h2 resid of
                                 (Inl e, h3) \<Rightarrow> (Inl e, h3)
                               | (Inr r, h3) \<Rightarrow> (Inr (adf_pvalue r), h3)))))))"

fun coint_loop_at :: "statsmodels_calls \<Rightarrow> series list \<Rightarrow> (string \<times> addr) list \<Rightarrow> bool \<Rightarrow> float64 \<Rightarrow>
    (string \<times> string) list \<Rightarrow> (string \<times> string \<times> float64) list \<Rightarrow>
    (py_error + (string \<times> string \<times> float64) list) \<times> series list" where
  "coint_loop_at calls h fr intercept sig_level [] cointegrated_pairs = (Inr cointegrated_pairs, h)"
| "coint_loop_at calls h fr intercept sig_level (pair # rest) cointegrated_pairs =
     (case p_value_at calls h fr intercept pair of
        (Inl e, h') \<Rightarrow> (Inl e, h')
      | (Inr p_value, h') \<Rightarrow>
          coint_loop_at calls h' fr intercept sig_level rest
            (if fl_less p_value sig_level
             then cointegrated_pairs @ [(fst pair, snd pair, p_value)]
             else cointegrated_pairs))"

definition coint_at :: "statsmodels_calls \<Rightarrow> process \<Rightarrow> bool \<Rightarrow> float64 \<Rightarrow>
    (py_error + (string \<times> string \<times> float64) list) \<times> process" where
  "coint_at calls pw intercept sig_level =
     (case coint_loop_at calls (heap pw) (frame pw) intercept sig_level
             (combinations2 (map fst (frame pw))) [] of
        (r, h) \<Rightarrow> (r, pw\<lparr>heap := h\<rparr>))"

text \<open>
  The table a store holds, and the state of the first model it stands for. Every address
  of the frame is allocated.
\<close>

definition table_of :: "series list \<Rightarrow> (string \<times> addr) list \<Rightarrow> dataframe" where
  "table_of h fr = map (\<lambda>c. (fst c, h ! snd c)) fr"

definition contents :: "process \<Rightarrow> world" where
  "contents pw = \<lparr>table = map (\<lambda>c. (fst c, heap pw ! snd c)) (frame pw), stdout = console pw\<rparr>"

definition frame_ok :: "process \<Rightarrow> bool" where
  "frame_ok pw = list_all (\<lambda>c. snd c < length (heap pw)) (frame pw)"

text \<open>
  What is assumed of statsmodels: a call changes no array allocated before it, and its
  result is a function of the contents of the arrays it is given, the one \<open>lib\<close> gives.
\<close>

definition reads_only :: "statsmodels_calls \<Rightarrow> statsmodels \<Rightarrow> bool" where
  "reads_only calls lib =
     ((\<forall>h a b t. prefix h (snd (coint_call calls h a b t))
          \<and> fst (coint_call calls h a b t) = smts_coint lib (h ! a) (h ! b) t)
      \<and> (\<forall>h a. prefix h (snd (adfuller_call calls h a))
          \<and> fst (adfuller_call calls h a) = adfuller lib (h ! a))
      \<and> (\<forall>h a. prefix h (snd (add_constant_call calls h a))
          \<and> map (nth (snd (add_constant_call calls h a))) (fst (add_constant_call calls h a))
              = add_constant lib (h ! a))
      \<and> (\<forall>h y X. prefix h (snd (OLS_call calls h y X))
          \<and> map_sum id (nth (snd (OLS_call calls h y X))) (fst (OLS_call calls h y X))
              = OLS_fit_resid lib (h ! y) (map (nth h) X)))"

text \<open>A library on the store that reads its arguments and allocates its results.\<close>

definition calls_of :: "statsmodels \<Rightarrow> statsmodels_calls" where
  "calls_of lib = \<lparr>
     coint_call = (\<lambda>h a b t. (smts_coint lib (h ! a) (h ! b) t, h)),
     adfuller_call = (\<lambda>h a. (adfuller lib (h ! a), h)),
     add_constant_call = (\<lambda>h a.
       ([length h..<length h + length (add_constant lib (h ! a))], h @ add_constant lib (h ! a))),
     OLS_call = (\<lambda>h y X.
       (case OLS_fit_resid lib (h ! y) (map (nth h) X) of
          Inl e \<Rightarrow> (Inl e, h)
        | Inr r \<Rightarrow> (Inr (length h), h @ [r])))\<rparr>"

definition market_store :: process where
  "market_store =
     \<lparr>heap = [[Finite 0, Finite 4], [Finite 1, Finite 3], [Finite 3, Finite 1]],
      frame = [(''A'', 0), (''B'', 1), (''C'', 2)], console = []\<rparr>"

subsection \<open>Example inputs where the rounding shows\<close>

text \<open>
  Three columns, the second three times the first and the third equal to the first: in
  exact arithmetic all three have the same normalized series.
\<close>

definition scaled_prices :: dataframe where
  "scaled_prices =
     [(''A'', [Finite 0, Finite 0, Finite 1]), (''B'', [Finite 0, Finite 0, Finite 3]),
      (''C'', [Finite 0, Finite 0, Finite 1])]"

definition scaled_market :: world where
  "scaled_market = \<lparr>table = scaled_prices, stdout = []\<rparr>"

text \<open>
  A constant column of the binary64 value nearest to 0.1, which is
  \<open>3602879701896397 / 2\<^sup>5\<^sup>5\<close>, beside a column that is not constant.
\<close>

definition tenths :: series where
  "tenths =
     [Finite (3602879701896397 / 2 ^ 55), Finite (3602879701896397 / 2 ^ 55),
      Finite (3602879701896397 / 2 ^ 55)]"

definition tenth_prices :: dataframe where
  "tenth_prices = [(''K'', tenths), (''B'', [Finite 1, Finite 2, Finite 3])]"

definition tenth_market :: world where
  "tenth_market = \<lparr>table = tenth_prices, stdout = []\<rparr>"

text \<open>A column whose squared deviations overflow, beside a small one.\<close>

definition steep :: series where
  "steep = [Finite 0, Finite (2 ^ 700)]"

definition steep_prices :: dataframe where
  "steep_prices = [(''A'', steep), (''B'', [Finite 0, Finite 1])]"

section \<open>Verification\<close>

subsection \<open>Facts about the enumeration of pairs\<close>

lemma length_combinations2: "length (combinations2 xs) = length xs choose 2"
  by (induction xs) (simp_all add: numeral_2_eq_2)






lemma combinations2_short: "length xs < 2 \<Longrightarrow> combinations2 xs = []"
  by (cases xs) (simp_all, (case_tac list, simp_all)?)

subsection \<open>Facts about the two loops\<close>

lemma and_then_Inr [simp]: "and_then (Inr v) f = f v"
  by (simp add: and_then_def)

lemma and_then_Inl [simp]: "and_then (Inl e) f = Inl e"
  by (simp add: and_then_def)

lemma coint_loop_returns:
  "\<forall>pr \<in> set ps. p_value_of lib df icpt pr = Inr (pv pr) \<Longrightarrow>
   coint_loop lib df icpt sig ps acc =
     Inr (acc @ map (\<lambda>pr. (fst pr, snd pr, pv pr)) (filter (\<lambda>pr. fl_less (pv pr) sig) ps))"
  by (induction ps arbitrary: acc) simp_all

lemma coint_loop_raises:
  "coint_loop lib df icpt sig ps acc = Inl e \<Longrightarrow> \<exists>pr \<in> set ps. p_value_of lib df icpt pr = Inl e"
  by (induction ps arbitrary: acc) (auto split: sum.splits)

lemma coint_loop_all_tested:
  "coint_loop lib df icpt sig ps acc = Inr res \<Longrightarrow> \<forall>pr \<in> set ps. \<exists>p. p_value_of lib df icpt pr = Inr p"
  by (induction ps arbitrary: acc) (auto split: sum.splits)

lemma distance_loop_returns:
  "\<forall>pr \<in> set ps. pair_dist df pr = Inr (sc pr) \<Longrightarrow>
   distance_loop df ps acc = Inr (acc @ map (\<lambda>pr. (sc pr, pr)) ps)"
  by (induction ps arbitrary: acc) simp_all

lemma distance_loop_raises:
  "distance_loop df ps acc = Inl e \<Longrightarrow> \<exists>pr \<in> set ps. pair_dist df pr = Inl e"
  by (induction ps arbitrary: acc) (auto split: sum.splits)

lemma distance_loop_scored:
  "distance_loop df ps acc = Inr scored \<Longrightarrow>
   \<exists>new. scored = acc @ new \<and> map snd new = ps \<and> (\<forall>x \<in> set new. pair_dist df (snd x) = Inr (fst x))"
proof (induction ps arbitrary: acc)
  case Nil
  then show ?case by simp
next
  case (Cons pr ps)
  from Cons.prems obtain d where d: "pair_dist df pr = Inr d"
    and rest: "distance_loop df ps (acc @ [(d, pr)]) = Inr scored"
    by (auto split: sum.splits)
  from Cons.IH [OF rest] obtain new where new: "scored = (acc @ [(d, pr)]) @ new" "map snd new = ps"
    "\<forall>x \<in> set new. pair_dist df (snd x) = Inr (fst x)" by blast
  show ?case
    by (rule exI [of _ "(d, pr) # new"]) (use new d in simp)
qed

lemma getitem_column:
  "a \<in> set (stock_names df) \<Longrightarrow> \<exists>s. getitem df a = Inr s \<and> (a, s) \<in> set df"
proof -
  assume "a \<in> set (stock_names df)"
  then have "a \<in> fst ` set df" by (simp add: stock_names_def)
  then obtain s where "map_of df a = Some s"
    by (metis domIff dom_map_of_conv_image_fst not_Some_eq)
  then show ?thesis by (auto simp: getitem_def dest: map_of_SomeD)
qed

lemma stock_pairs_names:
  "(a, b) \<in> set (stock_pairs df) \<Longrightarrow> a \<in> set (stock_names df) \<and> b \<in> set (stock_names df)"
proof -
  have "set (combinations2 xs) \<subseteq> set xs \<times> set xs" for xs :: "string list"
    by (induction xs) auto
  then show "(a, b) \<in> set (stock_pairs df) \<Longrightarrow> ?thesis"
    unfolding stock_pairs_def by blast
qed

lemma length_normalize_series [simp]: "length (normalize_series p) = length p"
  by (simp add: normalize_series_def)

lemma pair_dist_well_formed:
  assumes "well_formed df" and "pr \<in> set (stock_pairs df)"
  shows "\<exists>d. pair_dist df pr = Inr d"
proof -
  obtain a b where pr: "pr = (a, b)" by (cases pr)
  from assms(2) pr stock_pairs_names have "a \<in> set (stock_names df)" "b \<in> set (stock_names df)"
    by blast+
  then obtain sa sb where sa: "getitem df a = Inr sa" "(a, sa) \<in> set df"
    and sb: "getitem df b = Inr sb" "(b, sb) \<in> set df"
    using getitem_column by blast
  from assms(1) sa(2) sb(2) have "length sa = length sb"
    unfolding well_formed_def by fastforce
  then show ?thesis
    by (simp add: pr pair_dist_def sa sb series_dist_def np_sub_def)
qed

lemma distance_loop_well_formed:
  assumes "well_formed df"
  shows "\<exists>scored. distance_loop df (stock_pairs df) [] = Inr scored"
proof (cases "distance_loop df (stock_pairs df) []")
  case (Inl e)
  then obtain pr where "pr \<in> set (stock_pairs df)" "pair_dist df pr = Inl e"
    using distance_loop_raises by blast
  with pair_dist_well_formed [OF assms] show ?thesis by fastforce
next
  case (Inr scored)
  then show ?thesis by blast
qed

subsection \<open>Facts about the sort\<close>

lemma mset_insort_key0: "mset (insort_key0 x ys) = add_mset x (mset ys)"
  by (induction ys) simp_all

lemma mset_sorted_key0: "mset (sorted_key0 xs) = mset xs"
  unfolding sorted_key0_def by (induction xs) (simp_all add: mset_insort_key0)

lemma length_sorted_key0: "length (sorted_key0 xs) = length xs"
  using mset_sorted_key0 [of xs] by (metis size_mset)

lemma set_sorted_key0: "set (sorted_key0 xs) = set xs"
  using mset_sorted_key0 [of xs] by (metis set_mset_mset)

lemma fl_less_irrefl: "\<not> fl_less x x"
  by (cases x) simp_all

lemma filter_insort_key0:
  "filter (\<lambda>y. fst y = k) (insort_key0 x ys) =
     (if fst x = k then x # filter (\<lambda>y. fst y = k) ys else filter (\<lambda>y. fst y = k) ys)"
  by (induction ys) (auto simp: fl_less_irrefl)

lemma stable_sorted_key0:
  "filter (\<lambda>y. fst y = k) (sorted_key0 xs) = filter (\<lambda>y. fst y = k) xs"
  unfolding sorted_key0_def by (induction xs) (simp_all add: filter_insort_key0)

lemma fl_le_trans: "fl_le x y \<Longrightarrow> fl_le y z \<Longrightarrow> fl_le x z"
  by (cases x; cases y; cases z) (simp_all add: fl_le_def)

lemma fl_less_imp_le: "fl_less x y \<Longrightarrow> fl_le x y"
  by (cases x; cases y) (simp_all add: fl_le_def)

lemma sorted_insort_key0:
  assumes "sorted_wrt (\<lambda>u v. fl_le (fst u) (fst v)) ys" and "fst x \<noteq> NaN"
    and "\<forall>y \<in> set ys. fst y \<noteq> NaN"
  shows "sorted_wrt (\<lambda>u v. fl_le (fst u) (fst v)) (insort_key0 x ys)"
  using assms
proof (induction ys)
  case Nil
  then show ?case by simp
next
  case (Cons y ys)
  show ?case
  proof (cases "fl_less (fst y) (fst x)")
    case True
    have "set (insort_key0 x ys) = insert x (set ys)"
      using mset_insort_key0 [of x ys] by (metis set_mset_mset set_mset_add_mset_insert)
    with True Cons show ?thesis
      by (auto simp: fl_less_imp_le)
  next
    case False
    with Cons.prems have "fl_le (fst x) (fst y)"
      by (simp add: fl_le_def)
    with False Cons.prems show ?thesis
      by (auto intro: fl_le_trans)
  qed
qed

lemma sorted_sorted_key0:
  "\<forall>x \<in> set xs. fst x \<noteq> NaN \<Longrightarrow> sorted_wrt (\<lambda>u v. fl_le (fst u) (fst v)) (sorted_key0 xs)"
proof (induction xs)
  case Nil
  show ?case by (simp add: sorted_key0_def)
next
  case (Cons x xs)
  have "sorted_key0 (x # xs) = insort_key0 x (sorted_key0 xs)"
    by (simp add: sorted_key0_def)
  with Cons show ?case
    by (simp add: sorted_insort_key0 set_sorted_key0)
qed

lemma sorted_key0_incomparable:
  "\<forall>x \<in> set xs. \<forall>y \<in> set xs. \<not> fl_less (fst x) (fst y) \<Longrightarrow> sorted_key0 xs = xs"
proof (induction xs)
  case Nil
  show ?case by (simp add: sorted_key0_def)
next
  case (Cons x xs)
  then have "sorted_key0 xs = xs" by simp
  then have "sorted_key0 (x # xs) = insort_key0 x xs"
    by (simp add: sorted_key0_def)
  with Cons.prems show ?case by (cases xs) simp_all
qed

lemma distance_result:
  assumes "distance_loop (table w) (stock_pairs (table w)) [] = Inr scored" and "0 \<le> n"
  shows "fst (distance w n) = Inr (map snd (take (nat n) (sorted_key0 scored)))"
  using assms by (simp add: distance_def Let_def slice_to_def)

subsection \<open>Facts about the two screeners\<close>

lemma coint_loop_result:
  assumes "coint_loop lib df icpt sig ps acc = Inr res"
  shows "res = acc @ map (\<lambda>pr. (fst pr, snd pr, projr (p_value_of lib df icpt pr)))
                     (filter (\<lambda>pr. fl_less (projr (p_value_of lib df icpt pr)) sig) ps)"
proof -
  have "\<forall>pr \<in> set ps. p_value_of lib df icpt pr = Inr (projr (p_value_of lib df icpt pr))"
    using coint_loop_all_tested [OF assms] by auto
  from coint_loop_returns [of ps lib df icpt "\<lambda>pr. projr (p_value_of lib df icpt pr)" sig acc, OF this] assms
  show ?thesis by simp
qed

lemma distance_short: "length (table w) < 2 \<Longrightarrow> fst (distance w n) = Inr []"
  by (simp add: distance_def stock_pairs_def stock_names_def combinations2_short
      sorted_key0_def slice_to_def Let_def)

lemma coint_short: "length (table w) < 2 \<Longrightarrow> coint lib w icpt sig = (Inr [], w)"
  by (simp add: coint_def stock_pairs_def stock_names_def combinations2_short)

lemma coint_loop_append:
  "coint_loop lib df icpt sig (xs @ ys) acc =
     and_then (coint_loop lib df icpt sig xs acc) (coint_loop lib df icpt sig ys)"
  by (induction xs arbitrary: acc) (simp_all split: sum.splits)

lemma distance_keeps_table: "table (snd (distance w n)) = table w"
  by (cases "distance_loop (table w) (stock_pairs (table w)) []") (simp_all add: distance_def Let_def)

lemma distance_reads_table:
  assumes "table w' = table w"
  shows "fst (distance w' n) = fst (distance w n)"
  by (cases "distance_loop (table w) (stock_pairs (table w)) []") (simp_all add: distance_def Let_def assms)

lemma getitem_distinct:
  "distinct (map fst df) \<Longrightarrow> (a, s) \<in> set df \<Longrightarrow> getitem df a = Inr s"
  by (simp add: getitem_def)

lemma distance_result_all:
  assumes "distance_loop (table w) (stock_pairs (table w)) [] = Inr scored"
    and "int (length (stock_pairs (table w))) \<le> n"
  shows "fst (distance w n) = Inr (map snd (sorted_key0 scored))"
proof -
  from distance_loop_scored [OF assms(1)] have "length scored = length (stock_pairs (table w))"
    by (metis append_Nil length_map)
  with assms(2) have "int (length (sorted_key0 scored)) \<le> n" "0 \<le> n"
    by (simp_all add: length_sorted_key0)
  then show ?thesis
    using assms(1) by (simp add: distance_def Let_def slice_to_def)
qed

subsection \<open>Facts about rounding\<close>

lemma round_half_even_of_int [simp]: "round_half_even (of_int k) = k"
  by (simp add: round_half_even_def)

lemma round_half_even_ge_floor: "\<lfloor>t\<rfloor> \<le> round_half_even t"
  by (auto simp: round_half_even_def Let_def)


lemma ulp64_pos: "0 < ulp64 x"
  by (simp add: ulp64_def)


lemma small_below_overflow64: "\<bar>x\<bar> < 2 ^ 53 \<Longrightarrow> \<not> overflow64 \<le> \<bar>x\<bar>" for x :: real
proof -
  assume "\<bar>x\<bar> < 2 ^ 53"
  also have "(2 :: real) ^ 53 \<le> 2 ^ 1024"
    by (rule power_increasing) simp_all
  finally show ?thesis by (simp add: overflow64_def)
qed

lemma round64_of_int:
  assumes "\<bar>k\<bar> < 2 ^ 53"
  shows "round64 (of_int k) = Finite (of_int k)"
proof (cases "k = 0")
  case True
  then show ?thesis by (simp add: round64_def)
next
  case False
  let ?x = "of_int k :: real"
  have pos: "0 < \<bar>?x\<bar>" using False by simp
  have "1 \<le> \<bar>k\<bar>" using False by linarith
  then have "(1 :: real) \<le> of_int \<bar>k\<bar>" by (simp only: of_int_1_le_iff)
  then have ge1: "1 \<le> \<bar>?x\<bar>" by simp
  have "(of_int \<bar>k\<bar> :: real) < of_int (2 ^ 53)"
    using assms by (simp only: of_int_less_iff)
  then have lt: "\<bar>?x\<bar> < 2 ^ 53" by simp
  have "0 \<le> log 2 \<bar>?x\<bar>" using ge1 by simp
  then have e0: "0 \<le> \<lfloor>log 2 \<bar>?x\<bar>\<rfloor>" by simp
  have "\<bar>?x\<bar> < 2 powr 53"
    using lt by simp
  then have "log 2 \<bar>?x\<bar> < 53"
    using pos by (simp add: log_less_iff)
  then have e52: "\<lfloor>log 2 \<bar>?x\<bar>\<rfloor> \<le> 52" by linarith
  define j where "j = nat (52 - \<lfloor>log 2 \<bar>?x\<bar>\<rfloor>)"
  have ex: "exponent64 ?x - 52 = - int j"
    using e0 e52 by (simp add: exponent64_def j_def)
  have ulp: "ulp64 ?x = 1 / 2 ^ j"
    unfolding ulp64_def ex by (simp add: powr_minus powr_realpow divide_inverse)
  have "?x / ulp64 ?x = of_int (k * 2 ^ j)"
    by (simp add: ulp)
  then have r: "of_int (round_half_even (?x / ulp64 ?x)) * ulp64 ?x = ?x"
    by (simp only: round_half_even_of_int) (simp add: ulp)
  show ?thesis
    using False small_below_overflow64 [OF lt] by (simp add: round64_def r Let_def)
qed

lemma round64_0 [simp]: "round64 0 = Finite 0"
  by (simp add: round64_def)

lemma round64_1 [simp]: "round64 1 = Finite 1"
  using round64_of_int [of 1] by simp

lemma round64_neg_1 [simp]: "round64 (- 1) = Finite (- 1)"
  using round64_of_int [of "- 1"] by simp

lemma round64_numeral [simp]:
  "(numeral n :: int) < 9007199254740992 \<Longrightarrow> round64 (numeral n) = Finite (numeral n)"
  using round64_of_int [of "numeral n"] by simp

lemma round64_neg_numeral [simp]:
  "(numeral n :: int) < 9007199254740992 \<Longrightarrow> round64 (- numeral n) = Finite (- numeral n)"
  using round64_of_int [of "- numeral n"] by simp

lemma pairwise_sum_short: "length xs < 8 \<Longrightarrow> pairwise_sum xs = foldl fl_add (Finite 0) xs"
  by (simp add: pairwise_sum.simps)

lemmas eval_distance = pair_dist_def getitem_def series_dist_def normalize_series_def
  np_mean_def np_std_def np_sum_def pairwise_sum_short np_sub_def fl_sub_def Let_def

lemma scores_prices:
  "distance_loop prices (stock_pairs prices) [] =
     Inr [(Finite 0, ''A'', ''B''), (Finite 8, ''A'', ''C''), (Finite 8, ''B'', ''C'')]"
  by (simp add: prices_def stock_pairs_def stock_names_def eval_distance)

lemma scores_flat_prices:
  "distance_loop flat_prices (stock_pairs flat_prices) [] =
     Inr [(NaN, ''K'', ''B''), (NaN, ''K'', ''C''), (Finite 8, ''B'', ''C'')]"
  by (simp add: flat_prices_def stock_pairs_def stock_names_def eval_distance)

subsection \<open>Facts about the order of a summation\<close>

lemma foldl_tree:
  "\<exists>t. foldl fl_add (tree_value t0) xs = tree_value t
     \<and> mset (tree_leaves t) = mset (tree_leaves t0) + mset xs"
proof (induction xs arbitrary: t0)
  case Nil
  show ?case by (rule exI [of _ t0]) simp
next
  case (Cons x xs)
  from Cons.IH [of "Node t0 (Leaf x)"] show ?case by auto
qed

lemma map2_tree:
  "length ts = length xs \<Longrightarrow>
   map2 fl_add (map tree_value ts) xs = map tree_value (map2 (\<lambda>t x. Node t (Leaf x)) ts xs)
   \<and> mset (concat (map tree_leaves (map2 (\<lambda>t x. Node t (Leaf x)) ts xs)))
       = mset (concat (map tree_leaves ts)) + mset xs"
  by (induction ts xs rule: list_induct2) simp_all

lemma unroll8_tree:
  "length ts = 8 \<Longrightarrow>
   \<exists>ts' rest. unroll8 (map tree_value ts) xs = (map tree_value ts', rest) \<and> length ts' = 8
     \<and> mset (concat (map tree_leaves ts')) + mset rest = mset (concat (map tree_leaves ts)) + mset xs"
proof (induction "map tree_value ts" xs arbitrary: ts rule: unroll8.induct)
  case (1 xs)
  show ?case
  proof (cases "8 \<le> length xs")
    case False
    then show ?thesis
      using "1.prems" by (subst unroll8.simps) auto
  next
    case True
    let ?blk = "take 8 xs"
    let ?ts = "map2 (\<lambda>t x. Node t (Leaf x)) ts ?blk"
    have len: "length ts = length ?blk" using True "1.prems" by simp
    note m = map2_tree [OF len]
    have l8: "length ?ts = 8" using True "1.prems" by simp
    from "1.hyps" [OF True, of ?ts] m l8
    obtain ts' rest where r: "unroll8 (map tree_value ?ts) (drop 8 xs) = (map tree_value ts', rest)"
      "length ts' = 8"
      "mset (concat (map tree_leaves ts')) + mset rest
         = mset (concat (map tree_leaves ?ts)) + mset (drop 8 xs)"
      by auto
    have "mset ?blk + mset (drop 8 xs) = mset xs"
      by (metis append_take_drop_id mset_append)
    with r(3) m have "mset (concat (map tree_leaves ts')) + mset rest
        = mset (concat (map tree_leaves ts)) + mset xs"
      by (simp add: ac_simps)
    moreover have "unroll8 (map tree_value ts) xs = (map tree_value ts', rest)"
      using True r(1) m by (subst unroll8.simps) simp
    ultimately show ?thesis using r(2) by blast
  qed
qed

lemma eight_trees:
  assumes "length ts = (8 :: nat)"
  shows "\<exists>t. tree_value t =
           fl_add (fl_add (fl_add (map tree_value ts ! 0) (map tree_value ts ! 1))
                          (fl_add (map tree_value ts ! 2) (map tree_value ts ! 3)))
                  (fl_add (fl_add (map tree_value ts ! 4) (map tree_value ts ! 5))
                          (fl_add (map tree_value ts ! 6) (map tree_value ts ! 7)))
         \<and> mset (tree_leaves t) = mset (concat (map tree_leaves ts))"
proof -
  from assms obtain t0 t1 t2 t3 t4 t5 t6 t7 where ts: "ts = [t0, t1, t2, t3, t4, t5, t6, t7]"
    by (auto simp: length_Suc_conv numeral_eq_Suc)
  show ?thesis
    by (rule exI [of _ "Node (Node (Node t0 t1) (Node t2 t3)) (Node (Node t4 t5) (Node t6 t7))"])
      (simp add: ts)
qed

lemma block_sum_tree:
  assumes "8 \<le> length xs"
  shows "\<exists>t. block_sum xs = tree_value t \<and> mset (tree_leaves t) = mset xs"
proof -
  let ?ts = "map Leaf (take 8 xs)"
  have l: "length ?ts = 8" using assms by simp
  have v: "map tree_value ?ts = take 8 xs" by (simp add: comp_def)
  have lv: "concat (map tree_leaves ?ts) = take 8 xs"
    by (induction "take 8 xs" arbitrary: xs) (simp_all add: comp_def)
  from unroll8_tree [OF l, of "drop 8 xs"] obtain ts' rest
    where u: "unroll8 (take 8 xs) (drop 8 xs) = (map tree_value ts', rest)" and l': "length ts' = 8"
      and m: "mset (concat (map tree_leaves ts')) + mset rest
              = mset (concat (map tree_leaves ?ts)) + mset (drop 8 xs)"
    unfolding v by blast
  from eight_trees [OF l'] obtain t8 where t8: "tree_value t8 =
           fl_add (fl_add (fl_add (map tree_value ts' ! 0) (map tree_value ts' ! 1))
                          (fl_add (map tree_value ts' ! 2) (map tree_value ts' ! 3)))
                  (fl_add (fl_add (map tree_value ts' ! 4) (map tree_value ts' ! 5))
                          (fl_add (map tree_value ts' ! 6) (map tree_value ts' ! 7)))"
    and m8: "mset (tree_leaves t8) = mset (concat (map tree_leaves ts'))"
    by blast
  from foldl_tree [of t8 rest] obtain t where t: "foldl fl_add (tree_value t8) rest = tree_value t"
    and mt: "mset (tree_leaves t) = mset (tree_leaves t8) + mset rest" by blast
  have "block_sum xs = foldl fl_add (tree_value t8) rest"
    by (simp only: block_sum_def u t8 prod.case)
  then have "block_sum xs = tree_value t"
    by (simp only: t)
  moreover have "mset (take 8 xs) + mset (drop 8 xs) = mset xs"
    by (metis append_take_drop_id mset_append)
  with mt m8 m lv have "mset (tree_leaves t) = mset xs" by simp
  ultimately show ?thesis by blast
qed

lemma pairwise_sum_tree: "\<exists>t. pairwise_sum xs = tree_value t \<and> mset (tree_leaves t) = mset xs"
proof (induction xs rule: pairwise_sum.induct)
  case (1 xs)
  consider "length xs < 8" | "8 \<le> length xs" "length xs \<le> 128" | "128 < length xs"
    by linarith
  then show ?case
  proof cases
    case 1
    from foldl_tree [of Zero xs] show ?thesis
      using 1 by (subst pairwise_sum.simps) simp
  next
    case 2
    from block_sum_tree [OF 2(1)] show ?thesis
      using 2 by (subst pairwise_sum.simps) simp
  next
    case 3
    define n2 where "n2 = length xs div 2 - length xs div 2 mod 8"
    have c: "\<not> length xs < 8" "\<not> length xs \<le> 128" using 3 by simp_all
    from "1.IH"(1) [OF c refl, of n2] obtain tl
      where tl: "pairwise_sum (take n2 xs) = tree_value tl" "mset (tree_leaves tl) = mset (take n2 xs)"
      by (auto simp: n2_def)
    from "1.IH"(2) [OF c refl, of n2] obtain tr
      where tr: "pairwise_sum (drop n2 xs) = tree_value tr" "mset (tree_leaves tr) = mset (drop n2 xs)"
      by (auto simp: n2_def)
    have "pairwise_sum xs = tree_value (Node tl tr)"
      using c tl(1) tr(1) by (subst pairwise_sum.simps) (simp add: Let_def n2_def)
    moreover have "mset (take n2 xs) + mset (drop n2 xs) = mset xs"
      by (metis append_take_drop_id mset_append)
    then have "mset (tree_leaves (Node tl tr)) = mset xs"
      using tl(2) tr(2) by simp
    ultimately show ?thesis by blast
  qed
qed

lemma np_sum_tree: "\<exists>t. np_sum xs = tree_value t \<and> mset (tree_leaves t) = mset xs"
proof -
  from pairwise_sum_tree [of xs] obtain t where "pairwise_sum xs = tree_value t"
    "mset (tree_leaves t) = mset xs" by blast
  then show ?thesis
    by (intro exI [of _ "Node Zero t"]) (simp add: np_sum_def)
qed




lemma tree_absorbing:
  assumes "\<And>x y. B x \<Longrightarrow> B y \<Longrightarrow> B (fl_add x y)"
    and "\<And>x. B x \<Longrightarrow> B (fl_add (Finite 0) x)" and "\<And>x. B x \<Longrightarrow> B (fl_add x (Finite 0))"
    and "\<forall>v \<in> set (tree_leaves t). B v"
  shows "if tree_leaves t = [] then tree_value t = Finite 0 else B (tree_value t)"
  using assms(4)
proof (induction t)
  case Zero
  show ?case by simp
next
  case (Leaf v)
  then show ?case by simp
next
  case (Node l r)
  then have l: "if tree_leaves l = [] then tree_value l = Finite 0 else B (tree_value l)"
    and r: "if tree_leaves r = [] then tree_value r = Finite 0 else B (tree_value r)"
    by simp_all
  show ?case
  proof (cases "tree_leaves l = []")
    case True
    with l r show ?thesis by (cases "tree_leaves r = []") (simp_all add: assms(2))
  next
    case False
    with l r show ?thesis by (cases "tree_leaves r = []") (simp_all add: assms(1,3))
  qed
qed

subsection \<open>Facts about squares and their sums\<close>












lemma fl_mul_zero [simp]: "fl_mul (Finite 0) (Finite 0) = Finite 0"
  by simp




subsection \<open>Facts about a standard deviation of zero\<close>

lemma fl_div_by_zero: "\<not> is_finite (fl_div v (Finite 0))"
  by (cases v) (simp_all add: is_finite_def signed_inf_def)

lemma fl_neg_is_finite [simp]: "is_finite (fl_neg v) = is_finite v"
  by (cases v) (simp_all add: is_finite_def)

lemma fl_add_not_finite_left: "\<not> is_finite x \<Longrightarrow> \<not> is_finite (fl_add x y)"
  by (cases x; cases y) (simp_all add: is_finite_def)

lemma fl_add_not_finite_right: "\<not> is_finite y \<Longrightarrow> \<not> is_finite (fl_add x y)"
  by (cases x; cases y) (simp_all add: is_finite_def)

lemma fl_sub_not_finite: "\<not> is_finite x \<or> \<not> is_finite y \<Longrightarrow> \<not> is_finite (fl_sub x y)"
  by (auto simp: fl_sub_def fl_add_not_finite_left fl_add_not_finite_right)

lemma square_not_finite: "\<not> is_finite d \<Longrightarrow> fl_mul d d = NaN \<or> fl_mul d d = PInf"
  by (cases d) (simp_all add: is_finite_def)

lemma nan_or_inf_add:
  "x = NaN \<or> x = PInf \<Longrightarrow> y = NaN \<or> y = PInf \<Longrightarrow> fl_add x y = NaN \<or> fl_add x y = PInf"
  by auto

lemma nan_or_inf_add_zero_left:
  "x = NaN \<or> x = PInf \<Longrightarrow> fl_add (Finite 0) x = NaN \<or> fl_add (Finite 0) x = PInf"
  by auto

lemma nan_or_inf_add_zero_right:
  "x = NaN \<or> x = PInf \<Longrightarrow> fl_add x (Finite 0) = NaN \<or> fl_add x (Finite 0) = PInf"
  by auto

lemma np_sum_nan_or_inf:
  assumes "xs \<noteq> []" and "\<forall>v \<in> set xs. v = NaN \<or> v = PInf"
  shows "np_sum xs = NaN \<or> np_sum xs = PInf"
proof -
  from np_sum_tree [of xs] obtain t where t: "np_sum xs = tree_value t"
    "mset (tree_leaves t) = mset xs" by blast
  from t(2) have s: "set (tree_leaves t) = set xs" by (metis set_mset_mset)
  from t(2) assms(1) have ne: "tree_leaves t \<noteq> []" by auto
  have leaves: "\<forall>v \<in> set (tree_leaves t). v = NaN \<or> v = PInf"
    unfolding s by (rule assms(2))
  from tree_absorbing [where B = "\<lambda>v. v = NaN \<or> v = PInf" and t = t,
      OF nan_or_inf_add nan_or_inf_add_zero_left nan_or_inf_add_zero_right leaves] ne t(1)
  show ?thesis by simp
qed

lemma np_std_empty: "np_std [] = NaN"
  by (simp add: np_std_def np_mean_def np_sum_def pairwise_sum_short)

lemma normalize_std_zero:
  assumes "np_std p = Finite 0"
  shows "\<forall>z \<in> set (normalize_series p). \<not> is_finite z"
  by (simp add: normalize_series_def assms fl_div_by_zero)

lemma squares_of_differences:
  assumes "\<forall>z \<in> set zs. \<not> is_finite z" and "length zs = length qs"
  shows "\<forall>v \<in> set (map (\<lambda>d. fl_mul d d) (map2 fl_sub zs qs)). v = NaN \<or> v = PInf"
    and "\<forall>v \<in> set (map (\<lambda>d. fl_mul d d) (map2 fl_sub qs zs)). v = NaN \<or> v = PInf"
proof -
  have "\<not> is_finite (fl_sub z q) \<and> \<not> is_finite (fl_sub q z)" if "(z, q) \<in> set (zip zs qs)" for z q
    using that assms(1) by (auto dest!: set_zip_leftD intro!: fl_sub_not_finite)
  then show "\<forall>v \<in> set (map (\<lambda>d. fl_mul d d) (map2 fl_sub zs qs)). v = NaN \<or> v = PInf"
    by (auto intro!: square_not_finite)
  have "\<not> is_finite (fl_sub q z)" if "(q, z) \<in> set (zip qs zs)" for z q
    using that assms(1) by (auto dest!: set_zip_rightD intro!: fl_sub_not_finite)
  then show "\<forall>v \<in> set (map (\<lambda>d. fl_mul d d) (map2 fl_sub qs zs)). v = NaN \<or> v = PInf"
    by (auto intro!: square_not_finite)
qed

lemma series_dist_std_zero:
  assumes "np_std p = Finite 0" and "length q = length p"
  shows "series_dist p q = Inr NaN \<or> series_dist p q = Inr PInf"
    and "series_dist q p = Inr NaN \<or> series_dist q p = Inr PInf"
proof -
  have ne: "p \<noteq> []" using assms(1) np_std_empty by auto
  let ?z = "normalize_series p" and ?w = "normalize_series q"
  have len: "length ?z = length ?w" using assms(2) by simp
  note sq = squares_of_differences [OF normalize_std_zero [OF assms(1)] len]
  have n1: "map (\<lambda>d. fl_mul d d) (map2 fl_sub ?z ?w) \<noteq> []"
    and n2: "map (\<lambda>d. fl_mul d d) (map2 fl_sub ?w ?z) \<noteq> []"
    using ne assms(2) by (cases p; cases q; simp add: normalize_series_def)+
  from np_sum_nan_or_inf [OF n1 sq(1)]
  show "series_dist p q = Inr NaN \<or> series_dist p q = Inr PInf"
    using assms(2) by (simp add: series_dist_def np_sub_def)
  from np_sum_nan_or_inf [OF n2 sq(2)]
  show "series_dist q p = Inr NaN \<or> series_dist q p = Inr PInf"
    using assms(2) by (simp add: series_dist_def np_sub_def)
qed

lemma pair_dist_std_zero:
  assumes wf: "well_formed df" and col: "(a, sa) \<in> set df" and sd: "np_std sa = Finite 0"
    and pr: "pr \<in> set (stock_pairs df)" and touches: "fst pr = a \<or> snd pr = a"
  shows "pair_dist df pr = Inr NaN \<or> pair_dist df pr = Inr PInf"
proof -
  obtain x y where xy: "pr = (x, y)" by (cases pr)
  from pr xy stock_pairs_names have "x \<in> set (stock_names df)" "y \<in> set (stock_names df)"
    by blast+
  then obtain sx sy where sx: "getitem df x = Inr sx" "(x, sx) \<in> set df"
    and sy: "getitem df y = Inr sy" "(y, sy) \<in> set df"
    using getitem_column by blast
  from wf have d: "distinct (map fst df)" by (simp add: well_formed_def)
  have ga: "getitem df a = Inr sa" by (rule getitem_distinct [OF d col])
  from wf col sx(2) sy(2) have lx: "length sx = length sa" and ly: "length sy = length sa"
    unfolding well_formed_def by fastforce+
  from touches xy consider "x = a" | "y = a" by auto
  then show ?thesis
  proof cases
    case 1
    with sx ga have "sx = sa" by simp
    then show ?thesis
      using series_dist_std_zero(1) [OF sd ly] by (simp add: xy pair_dist_def sx sy)
  next
    case 2
    with sy ga have "sy = sa" by simp
    then show ?thesis
      using series_dist_std_zero(2) [OF sd lx] by (simp add: xy pair_dist_def sx sy)
  qed
qed

subsection \<open>Facts about the store\<close>

lemma nth_prefix: "prefix h h' \<Longrightarrow> a < length h \<Longrightarrow> h' ! a = h ! a"
  by (auto simp: prefix_def nth_append)

lemma table_of_prefix:
  assumes "prefix h h'" and "list_all (\<lambda>c. snd c < length h) fr"
  shows "table_of h' fr = table_of h fr"
  unfolding table_of_def using assms by (auto simp: list_all_iff nth_prefix)

lemma frame_prefix:
  "prefix h h' \<Longrightarrow> list_all (\<lambda>c. snd c < length h) fr \<Longrightarrow> list_all (\<lambda>c. snd c < length h') fr"
  by (auto simp: list_all_iff prefix_def)

lemma getitem_table_of: "getitem (table_of h fr) name = map_sum id (nth h) (column_of fr name)"
proof -
  have "map_of (map (\<lambda>c. (fst c, h ! snd c)) fr) name = map_option (nth h) (map_of fr name)"
    by (induction fr) auto
  then show ?thesis
    by (simp add: getitem_def column_of_def table_of_def split: option.splits)
qed

lemma column_of_valid:
  "column_of fr name = Inr a \<Longrightarrow> list_all (\<lambda>c. snd c < length h) fr \<Longrightarrow> a < length h"
  by (auto simp: column_of_def list_all_iff split: option.splits dest!: map_of_SomeD)

lemma normalize_at_result:
  assumes "p < length h"
  shows "\<exists>c. normalize_at h p = (Suc (length h), h @ [c, normalize_series (h ! p)])"
proof -
  let ?c = "map (\<lambda>v. fl_sub v (np_mean (h ! p))) (h ! p)"
  have "normalize_at h p = (Suc (length h), h @ [?c, normalize_series (h ! p)])"
    using assms by (simp add: normalize_at_def alloc_def nth_append normalize_series_def comp_def)
  then show ?thesis by blast
qed

lemma pair_dist_at_result:
  assumes "list_all (\<lambda>c. snd c < length h) fr"
  shows "fst (pair_dist_at h fr pair) = pair_dist (table_of h fr) pair
       \<and> prefix h (snd (pair_dist_at h fr pair))"
proof -
  obtain s1 s2 where pair: "pair = (s1, s2)" by (cases pair)
  show ?thesis
  proof (cases "column_of fr s1")
    case (Inl e)
    then show ?thesis
      by (simp add: pair pair_dist_at_def pair_dist_def getitem_table_of)
  next
    case p1: (Inr p1)
    show ?thesis
    proof (cases "column_of fr s2")
      case (Inl e)
      then show ?thesis
        using p1 by (simp add: pair pair_dist_at_def pair_dist_def getitem_table_of)
    next
      case p2: (Inr p2)
      have v1: "p1 < length h" and v2: "p2 < length h"
        using p1 p2 assms by (auto dest: column_of_valid)
      from normalize_at_result [OF v1] obtain c1
        where n1: "normalize_at h p1 = (Suc (length h), h @ [c1, normalize_series (h ! p1)])" by blast
      let ?h1 = "h @ [c1, normalize_series (h ! p1)]"
      have v2': "p2 < length ?h1" using v2 by simp
      from normalize_at_result [OF v2'] obtain c2
        where n2: "normalize_at ?h1 p2 = (Suc (length ?h1), ?h1 @ [c2, normalize_series (?h1 ! p2)])"
        by blast
      let ?h2 = "?h1 @ [c2, normalize_series (?h1 ! p2)]"
      have z1: "?h2 ! Suc (length h) = normalize_series (h ! p1)"
        by (simp add: nth_append)
      have z2: "?h2 ! Suc (length ?h1) = normalize_series (h ! p2)"
        using v2 by (simp add: nth_append)
      show ?thesis
      proof (cases "np_sub (normalize_series (h ! p1)) (normalize_series (h ! p2))")
        case (Inl e)
        then show ?thesis
          using p1 p2 n1 n2 z1 z2
          by (simp add: pair pair_dist_at_def pair_dist_def getitem_table_of series_dist_def)
      next
        case (Inr d)
        then show ?thesis
          using p1 p2 n1 n2 z1 z2
          by (simp add: pair pair_dist_at_def pair_dist_def getitem_table_of series_dist_def
              alloc_def nth_append)
      qed
    qed
  qed
qed

lemma distance_loop_at_result:
  assumes "list_all (\<lambda>c. snd c < length h) fr"
  shows "fst (distance_loop_at h fr ps acc) = distance_loop (table_of h fr) ps acc
       \<and> prefix h (snd (distance_loop_at h fr ps acc))"
  using assms
proof (induction ps arbitrary: h acc)
  case Nil
  show ?case by simp
next
  case (Cons pr ps)
  obtain r h' where step: "pair_dist_at h fr pr = (r, h')" by (cases "pair_dist_at h fr pr")
  from pair_dist_at_result [OF Cons.prems, of pr] step
  have r: "pair_dist (table_of h fr) pr = r" and pre: "prefix h h'" by simp_all
  show ?case
  proof (cases r)
    case (Inl e)
    with step r pre show ?thesis by simp
  next
    case (Inr d)
    have ok': "list_all (\<lambda>c. snd c < length h') fr"
      by (rule frame_prefix [OF pre Cons.prems])
    have same: "table_of h' fr = table_of h fr"
      by (rule table_of_prefix [OF pre Cons.prems])
    from Cons.IH [OF ok', of "acc @ [(d, pr)]"] same
    have "fst (distance_loop_at h' fr ps (acc @ [(d, pr)])) = distance_loop (table_of h fr) ps (acc @ [(d, pr)])"
      and "prefix h' (snd (distance_loop_at h' fr ps (acc @ [(d, pr)])))"
      by simp_all
    with step r Inr pre show ?thesis
      by (auto intro: prefix_order.trans)
  qed
qed

lemma table_contents: "table (contents pw) = table_of (heap pw) (frame pw)"
  by (simp add: contents_def table_of_def)

lemma stock_pairs_table_of: "stock_pairs (table_of h fr) = combinations2 (map fst fr)"
  by (simp add: table_of_def stock_pairs_def stock_names_def comp_def)

lemma distance_at_result:
  assumes "frame_ok pw"
  shows "fst (distance_at pw n) = fst (distance (contents pw) n)"
    and "prefix (heap pw) (heap (snd (distance_at pw n)))"
    and "frame (snd (distance_at pw n)) = frame pw"
    and "console (snd (distance_at pw n)) = stdout (snd (distance (contents pw) n))"
proof -
  let ?ps = "combinations2 (map fst (frame pw))"
  obtain r h where run: "distance_loop_at (heap pw) (frame pw) ?ps [] = (r, h)"
    by (cases "distance_loop_at (heap pw) (frame pw) ?ps []")
  from assms have ok: "list_all (\<lambda>c. snd c < length (heap pw)) (frame pw)"
    by (simp add: frame_ok_def)
  from distance_loop_at_result [OF ok, of ?ps "[]"] run
  have r: "distance_loop (table (contents pw)) (stock_pairs (table (contents pw))) [] = r"
    and pre: "prefix (heap pw) h"
    by (simp_all add: table_contents stock_pairs_table_of)
  have "fst (distance_at pw n) = fst (distance (contents pw) n)
      \<and> heap (snd (distance_at pw n)) = h \<and> frame (snd (distance_at pw n)) = frame pw
      \<and> console (snd (distance_at pw n)) = stdout (snd (distance (contents pw) n))"
    using run r
    by (cases r) (simp_all add: distance_at_def distance_def Let_def stock_pairs_table_of table_contents,
        simp_all add: contents_def)
  with pre show "fst (distance_at pw n) = fst (distance (contents pw) n)"
    and "prefix (heap pw) (heap (snd (distance_at pw n)))"
    and "frame (snd (distance_at pw n)) = frame pw"
    and "console (snd (distance_at pw n)) = stdout (snd (distance (contents pw) n))"
    by simp_all
qed

lemma p_value_at_result:
  assumes ro: "reads_only calls lib" and ok: "list_all (\<lambda>c. snd c < length h) fr"
  shows "fst (p_value_at calls h fr icpt pair) = p_value_of lib (table_of h fr) icpt pair
       \<and> prefix h (snd (p_value_at calls h fr icpt pair))"
proof -
  obtain s1 s2 where pair: "pair = (s1, s2)" by (cases pair)
  show ?thesis
  proof (cases "column_of fr s1")
    case (Inl e)
    then show ?thesis
      by (simp add: pair p_value_at_def p_value_of_def getitem_table_of)
  next
    case a1: (Inr a1)
    show ?thesis
    proof (cases "column_of fr s2")
      case (Inl e)
      then show ?thesis
        using a1 by (simp add: pair p_value_at_def p_value_of_def getitem_table_of)
    next
      case a2: (Inr a2)
      have v1: "a1 < length h" using a1 ok by (auto dest: column_of_valid)
      show ?thesis
      proof (cases icpt)
        case False
        obtain r h' where c: "coint_call calls h a1 a2 ''c'' = (r, h')"
          by (cases "coint_call calls h a1 a2 ''c''")
        from ro c have "prefix h h'" "smts_coint lib (h ! a1) (h ! a2) ''c'' = r"
          unfolding reads_only_def by (metis fst_conv snd_conv)+
        then show ?thesis
          using False a1 a2 c
          by (cases r) (simp_all add: pair p_value_at_def p_value_of_def getitem_table_of)
      next
        case True
        obtain X h1 where ac: "add_constant_call calls h a2 = (X, h1)"
          by (cases "add_constant_call calls h a2")
        from ro ac have p1: "prefix h h1" and x: "map (nth h1) X = add_constant lib (h ! a2)"
          unfolding reads_only_def by (metis fst_conv snd_conv)+
        obtain r h2 where oc: "OLS_call calls h1 a1 X = (r, h2)"
          by (cases "OLS_call calls h1 a1 X")
        from ro oc have p2: "prefix h1 h2"
          and o: "map_sum id (nth h2) r = OLS_fit_resid lib (h1 ! a1) (map (nth h1) X)"
          unfolding reads_only_def by (metis fst_conv snd_conv)+
        have o': "map_sum id (nth h2) r = OLS_fit_resid lib (h ! a1) (add_constant lib (h ! a2))"
          using o x nth_prefix [OF p1 v1] by simp
        have p12: "prefix h h2" using p1 p2 by (rule prefix_order.trans)
        show ?thesis
        proof (cases r)
          case (Inl e)
          with o' have "OLS_fit_resid lib (h ! a1) (add_constant lib (h ! a2)) = Inl e" by simp
          then show ?thesis
            using True a1 a2 ac oc Inl p12
            by (simp add: pair p_value_at_def p_value_of_def getitem_table_of)
        next
          case (Inr resid)
          with o' have res: "OLS_fit_resid lib (h ! a1) (add_constant lib (h ! a2)) = Inr (h2 ! resid)"
            by simp
          obtain q h3 where adf: "adfuller_call calls h2 resid = (q, h3)"
            by (cases "adfuller_call calls h2 resid")
          from ro adf have p3: "prefix h2 h3" and q: "adfuller lib (h2 ! resid) = q"
            unfolding reads_only_def by (metis fst_conv snd_conv)+
          have p13: "prefix h h3" using p12 p3 by (rule prefix_order.trans)
          show ?thesis
            using True a1 a2 ac oc Inr res adf q p13
            by (cases q) (simp_all add: pair p_value_at_def p_value_of_def getitem_table_of)
        qed
      qed
    qed
  qed
qed

lemma coint_loop_at_result:
  assumes ro: "reads_only calls lib" and ok: "list_all (\<lambda>c. snd c < length h) fr"
  shows "fst (coint_loop_at calls h fr icpt sig ps acc) = coint_loop lib (table_of h fr) icpt sig ps acc
       \<and> prefix h (snd (coint_loop_at calls h fr icpt sig ps acc))"
  using ok
proof (induction ps arbitrary: h acc)
  case Nil
  show ?case by simp
next
  case (Cons pr ps)
  obtain r h' where step: "p_value_at calls h fr icpt pr = (r, h')"
    by (cases "p_value_at calls h fr icpt pr")
  from p_value_at_result [OF ro Cons.prems, of icpt pr] step
  have r: "p_value_of lib (table_of h fr) icpt pr = r" and pre: "prefix h h'" by simp_all
  show ?case
  proof (cases r)
    case (Inl e)
    with step r pre show ?thesis by simp
  next
    case (Inr p)
    have ok': "list_all (\<lambda>c. snd c < length h') fr"
      by (rule frame_prefix [OF pre Cons.prems])
    have same: "table_of h' fr = table_of h fr"
      by (rule table_of_prefix [OF pre Cons.prems])
    let ?acc = "if fl_less p sig then acc @ [(fst pr, snd pr, p)] else acc"
    from Cons.IH [OF ok', of ?acc] same
    have "fst (coint_loop_at calls h' fr icpt sig ps ?acc) = coint_loop lib (table_of h fr) icpt sig ps ?acc"
      and "prefix h' (snd (coint_loop_at calls h' fr icpt sig ps ?acc))"
      by simp_all
    with step r Inr pre show ?thesis
      by (auto intro: prefix_order.trans)
  qed
qed

lemma coint_at_result:
  assumes "reads_only calls lib" and "frame_ok pw"
  shows "fst (coint_at calls pw icpt sig) = fst (coint lib (contents pw) icpt sig)"
    and "prefix (heap pw) (heap (snd (coint_at calls pw icpt sig)))"
    and "frame (snd (coint_at calls pw icpt sig)) = frame pw"
    and "console (snd (coint_at calls pw icpt sig)) = console pw"
proof -
  let ?ps = "combinations2 (map fst (frame pw))"
  obtain r h where run: "coint_loop_at calls (heap pw) (frame pw) icpt sig ?ps [] = (r, h)"
    by (cases "coint_loop_at calls (heap pw) (frame pw) icpt sig ?ps []")
  from assms(2) have ok: "list_all (\<lambda>c. snd c < length (heap pw)) (frame pw)"
    by (simp add: frame_ok_def)
  from coint_loop_at_result [OF assms(1) ok, of icpt sig ?ps "[]"] run
  have "coint_loop lib (table (contents pw)) icpt sig (stock_pairs (table (contents pw))) [] = r"
    and "prefix (heap pw) h"
    by (simp_all add: table_contents stock_pairs_table_of)
  then show "fst (coint_at calls pw icpt sig) = fst (coint lib (contents pw) icpt sig)"
    and "prefix (heap pw) (heap (snd (coint_at calls pw icpt sig)))"
    and "frame (snd (coint_at calls pw icpt sig)) = frame pw"
    and "console (snd (coint_at calls pw icpt sig)) = console pw"
    using run by (simp_all add: coint_at_def coint_def)
qed

lemma contents_after:
  assumes "frame_ok pw" and "prefix (heap pw) (heap pw')" and "frame pw' = frame pw"
  shows "frame_ok pw'" and "table (contents pw') = table (contents pw)"
proof -
  from assms(1) have ok: "list_all (\<lambda>c. snd c < length (heap pw)) (frame pw)"
    by (simp add: frame_ok_def)
  show "frame_ok pw'"
    using frame_prefix [OF assms(2) ok] by (simp add: frame_ok_def assms(3))
  show "table (contents pw') = table (contents pw)"
    using table_of_prefix [OF assms(2) ok] by (simp add: table_contents assms(3))
qed

lemma reads_only_calls_of: "reads_only (calls_of lib) lib"
  by (auto simp: reads_only_def calls_of_def nth_append map_nth split: sum.splits
      intro!: nth_equalityI)

subsection \<open>What a call of \<open>distance\<close> returns and prints\<close>



lemma mset_take_subset: "mset (take k xs) \<subseteq># mset xs"
proof -
  have "mset xs = mset (take k xs) + mset (drop k xs)"
    by (simp add: union_code)
  then show ?thesis by simp
qed

lemma mset_slice_to: "mset (slice_to xs n) \<subseteq># mset xs"
  by (simp add: slice_to_def mset_take_subset)


lemma distance_prints:
  assumes "distance_loop (table w) (stock_pairs (table w)) [] = Inr scored"
  shows "stdout (snd (distance w n)) = stdout w @ [slice_to (sorted_key0 scored) 10]"
  using assms by (simp add: distance_def Let_def)

lemma distance_returns_some:
  assumes run: "distance_loop (table w) (stock_pairs (table w)) [] = Inr scored"
  shows "\<exists>res. fst (distance w n) = Inr res \<and> mset res \<subseteq># mset (stock_pairs (table w))
      \<and> (int (length (stock_pairs (table w))) \<le> n \<longrightarrow> mset res = mset (stock_pairs (table w)))"
proof -
  from distance_loop_scored [OF run] have pairs: "map snd scored = stock_pairs (table w)"
    by auto
  have all: "mset (map snd (sorted_key0 scored)) = mset (stock_pairs (table w))"
    using pairs by (metis mset_map mset_sorted_key0)
  show ?thesis
  proof (cases "int (length (stock_pairs (table w))) \<le> n")
    case True
    from distance_result_all [OF run True] all show ?thesis by simp
  next
    case False
    then have res: "fst (distance w n) = Inr (map snd (slice_to (sorted_key0 scored) n))"
      using run pairs [symmetric] by (simp add: distance_def Let_def length_sorted_key0)
    have "mset (map snd (slice_to (sorted_key0 scored) n)) \<subseteq># mset (map snd (sorted_key0 scored))"
      unfolding mset_map by (intro image_mset_subseteq_mono mset_slice_to)
    with res all False show ?thesis by simp
  qed
qed

subsection \<open>The screeners on the example inputs\<close>

lemma well_formed_prices: "well_formed prices"
  by (simp add: well_formed_def prices_def)

lemma well_formed_flat_prices: "well_formed flat_prices"
  by (simp add: well_formed_def flat_prices_def)

lemma distance_market:
  "fst (distance market n) =
     Inr (map snd (if 3 < n then [(Finite 0, ''A'', ''B''), (Finite 8, ''A'', ''C''), (Finite 8, ''B'', ''C'')]
        else slice_to [(Finite 0, ''A'', ''B''), (Finite 8, ''A'', ''C''), (Finite 8, ''B'', ''C'')] n))"
  by (simp add: distance_def market_def scores_prices sorted_key0_def Let_def)

lemma distance_flat_market:
  "fst (distance flat_market n) =
     Inr (map snd (if 3 < n then [(NaN, ''K'', ''B''), (NaN, ''K'', ''C''), (Finite 8, ''B'', ''C'')]
        else slice_to [(NaN, ''K'', ''B''), (NaN, ''K'', ''C''), (Finite 8, ''B'', ''C'')] n))"
  by (simp add: distance_def flat_market_def scores_flat_prices sorted_key0_def Let_def)

lemma scores_two_columns:
  "distance_loop two_columns (stock_pairs two_columns) [] = Inr [(NaN, ''K'', ''B'')]"
  by (simp add: two_columns_def stock_pairs_def stock_names_def eval_distance)

lemma np_std_flat: "np_std [Finite 1, Finite 1] = Finite 0"
  by (simp add: eval_distance)

subsection \<open>Squares that round to zero\<close>




subsection \<open>The result of \<open>distance\<close> when no distance is NaN\<close>

lemma distance_sorted_prefix:
  assumes "well_formed (table w)" and "1 \<le> n"
    and "\<forall>pr \<in> set (stock_pairs (table w)). pair_dist (table w) pr \<noteq> Inr NaN"
  shows "\<exists>scored. distance_loop (table w) (stock_pairs (table w)) [] = Inr scored
     \<and> map snd scored = stock_pairs (table w)
     \<and> (\<forall>x \<in> set scored. pair_dist (table w) (snd x) = Inr (fst x))
     \<and> fst (distance w n) = Inr (map snd (take (nat n) (sorted_key0 scored)))
     \<and> length (take (nat n) (sorted_key0 scored)) = min (nat n) (length (table w) choose 2)
     \<and> sorted_wrt (\<lambda>u v. fl_le (fst u) (fst v)) (sorted_key0 scored)
     \<and> mset (sorted_key0 scored) = mset scored
     \<and> (\<forall>k. filter (\<lambda>x. fst x = k) (sorted_key0 scored) = filter (\<lambda>x. fst x = k) scored)"
proof -
  from distance_loop_well_formed [OF assms(1)] obtain scored
    where run: "distance_loop (table w) (stock_pairs (table w)) [] = Inr scored" by blast
  from distance_loop_scored [OF run]
  have pairs: "map snd scored = stock_pairs (table w)"
    and scores: "\<forall>x \<in> set scored. pair_dist (table w) (snd x) = Inr (fst x)"
    by auto
  have no_nan: "\<forall>x \<in> set scored. fst x \<noteq> NaN"
  proof
    fix x assume x: "x \<in> set scored"
    then have "snd x \<in> set (stock_pairs (table w))"
      using pairs by (metis image_eqI set_map)
    with assms(3) scores x show "fst x \<noteq> NaN" by fastforce
  qed
  have len: "length scored = length (table w) choose 2"
    using pairs length_combinations2 [of "stock_names (table w)"]
    by (metis length_map stock_pairs_def stock_names_def)
  have "fst (distance w n) = Inr (map snd (take (nat n) (sorted_key0 scored)))"
    using assms(2) by (intro distance_result [OF run]) simp
  moreover have "length (take (nat n) (sorted_key0 scored)) = min (nat n) (length (table w) choose 2)"
    by (simp add: length_sorted_key0 len min.commute)
  moreover have "sorted_wrt (\<lambda>u v. fl_le (fst u) (fst v)) (sorted_key0 scored)"
    by (rule sorted_sorted_key0 [OF no_nan])
  moreover have "mset (sorted_key0 scored) = mset scored"
    by (rule mset_sorted_key0)
  moreover have "\<forall>k. filter (\<lambda>x. fst x = k) (sorted_key0 scored) = filter (\<lambda>x. fst x = k) scored"
    by (simp add: stable_sorted_key0)
  ultimately show ?thesis using run pairs scores by blast
qed

subsection \<open>Evaluating a rounding\<close>

text \<open>
  A rounding is decided by the binade of the exact result: a value \<open>m \<cdot> 2\<^sup>k\<close> with
  \<open>|m| < 2\<^sup>5\<^sup>3\<close> in the range of the exponents is its own rounding, a value of at
  least \<open>2\<^sup>1\<^sup>0\<^sup>2\<^sup>4\<close> rounds to the infinity, and any other value rounds to the
  multiple of the spacing of its binade that is nearest to it.
\<close>

lemma floor_log2_binade:
  assumes "2 powr of_int e \<le> \<bar>x\<bar>" and "\<bar>x\<bar> < 2 * 2 powr of_int e"
  shows "\<lfloor>log 2 \<bar>x\<bar>\<rfloor> = e"
proof -
  have pos: "0 < \<bar>x\<bar>"
    using assms(1) by (rule less_le_trans [rotated]) simp
  have "of_int e \<le> log 2 \<bar>x\<bar>"
    using assms(1) pos by (simp add: le_log_iff)
  moreover have "\<bar>x\<bar> < 2 powr (of_int e + 1)"
    using assms(2) by (simp add: powr_add)
  then have "log 2 \<bar>x\<bar> < of_int e + 1"
    using pos by (simp add: log_less_iff)
  ultimately show ?thesis by linarith
qed

lemma ulp64_binade:
  assumes "2 powr of_int e \<le> \<bar>x\<bar>" and "\<bar>x\<bar> < 2 * 2 powr of_int e" and "- 1022 \<le> e"
  shows "ulp64 x = 2 powr of_int (e - 52)"
  using floor_log2_binade [OF assms(1,2)] assms(3) by (simp add: ulp64_def exponent64_def)

lemma round64_exact:
  assumes m: "\<bar>m\<bar> < 2 ^ 53" and k: "- 1074 \<le> k" "k \<le> 971"
  shows "round64 (of_int m * 2 powr of_int k) = Finite (of_int m * 2 powr of_int k)"
proof (cases "m = 0")
  case True
  then show ?thesis by (simp add: round64_def)
next
  case False
  let ?x = "of_int m * 2 powr of_int k :: real"
  have nz: "?x \<noteq> 0" using False by simp
  have ax: "\<bar>?x\<bar> = of_int \<bar>m\<bar> * 2 powr of_int k"
    by (simp add: abs_mult)
  have "1 \<le> \<bar>m\<bar>" using False by linarith
  then have m1: "(1 :: real) \<le> of_int \<bar>m\<bar>" by (simp only: of_int_1_le_iff)
  have "(of_int \<bar>m\<bar> :: real) < of_int (2 ^ 53)"
    using m by (simp only: of_int_less_iff)
  then have m53: "(of_int \<bar>m\<bar> :: real) < 2 ^ 53" by simp
  have pos: "0 < \<bar>?x\<bar>" using nz by simp
  have lo: "2 powr of_int k \<le> \<bar>?x\<bar>"
    unfolding ax using m1 by (simp add: mult_le_cancel_right1)
  have hi: "\<bar>?x\<bar> < 2 powr (of_int k + 53)"
  proof -
    have "\<bar>?x\<bar> < 2 ^ 53 * 2 powr of_int k"
      unfolding ax using m53 by (simp add: mult_less_cancel_right)
    also have "\<dots> = 2 powr (of_int k + 53)"
      by (simp add: powr_add)
    finally show ?thesis .
  qed
  have "of_int k \<le> log 2 \<bar>?x\<bar>"
    using lo pos by (simp add: le_log_iff)
  then have e_lo: "k \<le> \<lfloor>log 2 \<bar>?x\<bar>\<rfloor>" by (simp add: le_floor_iff)
  have "log 2 \<bar>?x\<bar> < of_int k + 53"
    using hi pos by (simp add: log_less_iff)
  then have e_hi: "\<lfloor>log 2 \<bar>?x\<bar>\<rfloor> \<le> k + 52" by linarith
  define j where "j = nat (k - (exponent64 ?x - 52))"
  have "exponent64 ?x - 52 \<le> k"
    unfolding exponent64_def using e_hi k by linarith
  then have ex: "exponent64 ?x - 52 = k - int j"
    by (simp add: j_def)
  have "ulp64 ?x = 2 powr (of_int k - of_nat j)"
    unfolding ulp64_def ex by simp
  also have "\<dots> = 2 powr of_int k / 2 ^ j"
    by (simp add: powr_diff powr_realpow)
  finally have ulp: "ulp64 ?x = 2 powr of_int k / 2 ^ j" .
  have q: "?x / ulp64 ?x = of_int (m * 2 ^ j)"
    by (simp add: ulp)
  have r: "of_int (round_half_even (?x / ulp64 ?x)) * ulp64 ?x = ?x"
    by (simp only: q round_half_even_of_int) (simp add: ulp)
  have "\<bar>?x\<bar> < 2 powr (of_int k + 53)" by (rule hi)
  also have "\<dots> \<le> 2 powr 1024"
    using k by (intro powr_mono) simp_all
  finally have "\<not> overflow64 \<le> \<bar>?x\<bar>"
    by (simp add: overflow64_def)
  then show ?thesis
    using nz by (simp add: round64_def r Let_def del: of_int_mult mult_eq_0_iff)
qed

lemma round64_overflow:
  assumes "overflow64 \<le> x"
  shows "round64 x = PInf"
proof -
  have big: "2 powr 1024 \<le> x" using assms by (simp add: overflow64_def)
  then have pos: "0 < x" by (rule less_le_trans [rotated]) simp
  define e where "e = \<lfloor>log 2 \<bar>x\<bar>\<rfloor>"
  have "1024 \<le> log 2 \<bar>x\<bar>" using big pos by (simp add: le_log_iff)
  then have e: "1024 \<le> e" by (simp add: e_def le_floor_iff)
  have "of_int e \<le> log 2 \<bar>x\<bar>" by (simp add: e_def)
  then have lo: "2 powr of_int e \<le> x" using pos by (simp add: le_log_iff)
  have ulp: "ulp64 x = 2 powr of_int (e - 52)"
    using e by (simp add: ulp64_def exponent64_def e_def)
  have "2 powr of_int e / 2 powr of_int (e - 52) \<le> x / ulp64 x"
    unfolding ulp using lo by (simp add: divide_le_cancel)
  moreover have "2 powr of_int e / 2 powr of_int (e - 52) = (2 :: real) powr 52"
    by (simp add: powr_diff [symmetric])
  ultimately have "of_int (2 ^ 52) \<le> x / ulp64 x" by simp
  then have "2 ^ 52 \<le> \<lfloor>x / ulp64 x\<rfloor>" by (simp only: le_floor_iff)
  with round_half_even_ge_floor [of "x / ulp64 x"]
  have "2 ^ 52 \<le> round_half_even (x / ulp64 x)" by linarith
  then have "(of_int (2 ^ 52) :: real) \<le> of_int (round_half_even (x / ulp64 x))"
    by (simp only: of_int_le_iff)
  then have "2 powr 52 * ulp64 x \<le> of_int (round_half_even (x / ulp64 x)) * ulp64 x"
    using ulp64_pos [of x] by (simp add: mult_le_cancel_right)
  moreover have "2 powr 52 * ulp64 x = 2 powr of_int e"
  proof -
    have "(2 :: real) powr 52 * 2 powr of_int (e - 52) = 2 powr (52 + of_int (e - 52))"
      by (rule powr_add [symmetric])
    also have "\<dots> = 2 powr of_int e" by simp
    finally show ?thesis by (simp only: ulp)
  qed
  moreover have "(2 :: real) powr 1024 \<le> 2 powr of_int e"
    using e by (intro powr_mono) simp_all
  ultimately have "overflow64 \<le> \<bar>of_int (round_half_even (x / ulp64 x)) * ulp64 x\<bar>"
    by (simp add: overflow64_def)
  then show ?thesis
    using pos by (simp add: round64_def Let_def signed_inf_def)
qed

lemma round64_dyadic:
  assumes "\<bar>m\<bar> < 2 ^ 53" and "j \<le> 1074"
  shows "round64 (of_int m / 2 ^ j) = Finite (of_int m / 2 ^ j)"
proof -
  have "(2 :: real) powr of_int (- int j) = 1 / 2 ^ j"
    by (simp add: powr_minus powr_realpow divide_inverse)
  then have "of_int m * 2 powr of_int (- int j) = (of_int m / 2 ^ j :: real)"
    by simp
  with round64_exact [of m "- int j"] assms show ?thesis by simp
qed

lemma ulp64_small:
  assumes "1 / 2 ^ j \<le> \<bar>x\<bar>" and "\<bar>x\<bar> < 2 / 2 ^ j" and "j \<le> 1022"
  shows "ulp64 x = 1 / 2 ^ (j + 52)"
proof -
  have p: "(2 :: real) powr (- real n) = 1 / 2 ^ n" for n
    by (simp add: powr_minus powr_realpow divide_inverse)
  have e: "(of_int (- int j - 52) :: real) = - real (j + 52)"
    by simp
  have "ulp64 x = 2 powr of_int (- int j - 52)"
    using assms by (intro ulp64_binade) (simp_all add: p)
  then show ?thesis
    unfolding e by (simp only: p)
qed

lemma round_half_even_le: "round_half_even t \<le> \<lfloor>t\<rfloor> + 1"
  by (auto simp: round_half_even_def Let_def)

lemma round64_small:
  assumes lo: "1 / 2 ^ j \<le> \<bar>x\<bar>" and hi: "\<bar>x\<bar> < 2 / 2 ^ j" and j: "j \<le> 1022"
    and n: "round_half_even (x * 2 ^ (j + 52)) = n"
  shows "round64 x = Finite (of_int n / 2 ^ (j + 52))"
proof -
  let ?t = "x * 2 ^ (j + 52)"
  have u: "ulp64 x = 1 / 2 ^ (j + 52)"
    by (rule ulp64_small [OF lo hi j])
  have "0 < 1 / (2 :: real) ^ j" by simp
  then have "0 < \<bar>x\<bar>" using lo by (rule less_le_trans)
  then have nz: "x \<noteq> 0" by simp
  have "\<bar>x\<bar> < 2"
  proof -
    have "(1 :: real) \<le> 2 ^ j" by (rule one_le_power) simp
    then have "2 / (2 :: real) ^ j \<le> 2" by (simp add: pos_divide_le_eq)
    with hi show ?thesis by simp
  qed
  then have "\<bar>?t\<bar> < 2 * 2 ^ (j + 52)"
    by (simp add: abs_mult)
  then have t: "- (2 * 2 ^ (j + 52)) < ?t" "?t < 2 * 2 ^ (j + 52)"
    by (simp_all add: abs_less_iff)
  have "\<lfloor>?t\<rfloor> \<le> n" "n \<le> \<lfloor>?t\<rfloor> + 1"
    using round_half_even_ge_floor [of ?t] round_half_even_le [of ?t] n by simp_all
  moreover have "- (2 * 2 ^ (j + 52)) \<le> \<lfloor>?t\<rfloor>"
    using t(1) by (simp add: le_floor_iff)
  moreover have "\<lfloor>?t\<rfloor> < 2 * 2 ^ (j + 52)"
    using t(2) by (simp add: floor_less_iff)
  ultimately have "\<bar>n\<bar> \<le> 2 * 2 ^ (j + 52)" by linarith
  then have "\<bar>of_int n :: real\<bar> \<le> of_int (2 * 2 ^ (j + 52))"
    by (simp only: of_int_abs [symmetric] of_int_le_iff)
  then have "\<bar>of_int n / 2 ^ (j + 52) :: real\<bar> \<le> 2"
    by (simp add: divide_le_eq)
  also have "(2 :: real) < 2 ^ 1024"
    using power_strict_increasing [of 1 1024 "2 :: real"] by simp
  finally have "\<not> overflow64 \<le> \<bar>of_int n / 2 ^ (j + 52) :: real\<bar>"
    by (simp add: overflow64_def)
  moreover have "x / ulp64 x = ?t" by (simp add: u)
  ultimately show ?thesis
    using nz n by (simp add: round64_def Let_def u del: power_add)
qed

lemma round_half_even_near:
  assumes "of_int n - 1 / 2 < t" and "t < of_int n + 1 / 2"
  shows "round_half_even t = n"
proof (cases "of_int n \<le> t")
  case True
  then have f: "\<lfloor>t\<rfloor> = n" using assms(2) by linarith
  show ?thesis
    using assms(2) by (simp add: round_half_even_def f Let_def)
next
  case False
  then have f: "\<lfloor>t\<rfloor> = n - 1" using assms(1) by linarith
  show ?thesis
    using assms(1) False by (simp add: round_half_even_def f Let_def)
qed

lemma round64_sqrt_small:
  assumes j: "j \<le> 1022" and lo: "(1 / 2 ^ j)\<^sup>2 \<le> a" and hi: "a < (2 / 2 ^ j)\<^sup>2"
    and n_lo: "((of_int n - 1 / 2) / 2 ^ (j + 52))\<^sup>2 < a"
    and n_hi: "a < ((of_int n + 1 / 2) / 2 ^ (j + 52))\<^sup>2" and n: "1 \<le> n"
  shows "round64 (sqrt a) = Finite (of_int n / 2 ^ (j + 52))"
proof -
  have a: "0 \<le> a"
    using lo by (rule order_trans [rotated]) simp
  have s_lo: "1 / 2 ^ j \<le> sqrt a"
    using lo by (rule real_le_rsqrt)
  have s_hi: "sqrt a < 2 / 2 ^ j"
    using hi by (intro real_less_lsqrt) simp_all
  have "(1 :: real) \<le> of_int n" using n by simp
  then have p: "0 \<le> (of_int n + 1 / 2) / (2 :: real) ^ (j + 52)"
    by simp
  have t_lo: "(of_int n - 1 / 2) / 2 ^ (j + 52) < sqrt a"
    using n_lo by (rule real_less_rsqrt)
  have t_hi: "sqrt a < (of_int n + 1 / 2) / 2 ^ (j + 52)"
    using p n_hi by (rule real_less_lsqrt)
  have "of_int n - 1 / 2 < sqrt a * 2 ^ (j + 52)"
    using t_lo by (simp add: pos_divide_less_eq)
  moreover have "sqrt a * 2 ^ (j + 52) < of_int n + 1 / 2"
    using t_hi by (simp add: pos_less_divide_eq)
  ultimately have r: "round_half_even (sqrt a * 2 ^ (j + 52)) = n"
    by (rule round_half_even_near)
  have pos: "\<bar>sqrt a\<bar> = sqrt a"
    using a by simp
  show ?thesis
    by (rule round64_small [OF _ _ j r]) (simp_all only: pos s_lo s_hi)
qed

lemma round64_mid:
  assumes lo: "2 ^ e \<le> \<bar>x\<bar>" and hi: "\<bar>x\<bar> < 2 * 2 ^ e" and e: "e \<le> 52"
    and n: "round_half_even (x * 2 ^ (52 - e)) = n"
  shows "round64 x = Finite (of_int n / 2 ^ (52 - e))"
proof -
  let ?t = "x * 2 ^ (52 - e)"
  have p: "(2 :: real) powr real e = 2 ^ e"
    by (simp add: powr_realpow)
  have "ulp64 x = 2 powr of_int (int e - 52)"
    using lo hi by (intro ulp64_binade) (simp_all add: p)
  also have "(of_int (int e - 52) :: real) = - real (52 - e)"
    using e by simp
  also have "(2 :: real) powr (- real (52 - e)) = 1 / 2 ^ (52 - e)"
    by (simp add: powr_minus powr_realpow divide_inverse)
  finally have u: "ulp64 x = 1 / 2 ^ (52 - e)" .
  have "0 < (2 :: real) ^ e" by simp
  then have "0 < \<bar>x\<bar>" using lo by (rule less_le_trans)
  then have nz: "x \<noteq> 0" by simp
  have pw: "(2 :: real) ^ e * 2 ^ (52 - e) = 2 ^ 52"
    using e by (simp add: power_add [symmetric])
  have "\<bar>x\<bar> * 2 ^ (52 - e) < (2 * 2 ^ e) * 2 ^ (52 - e)"
    using hi by (rule mult_strict_right_mono) simp
  also have "\<dots> = 2 * 2 ^ 52"
    by (simp only: mult.assoc pw)
  finally have "\<bar>?t\<bar> < 2 * 2 ^ 52"
    by (simp add: abs_mult)
  then have t: "- (2 * 2 ^ 52) < ?t" "?t < 2 * 2 ^ 52"
    by (simp_all add: abs_less_iff)
  have "\<lfloor>?t\<rfloor> \<le> n" "n \<le> \<lfloor>?t\<rfloor> + 1"
    using round_half_even_ge_floor [of ?t] round_half_even_le [of ?t] n by simp_all
  moreover have "- (2 * 2 ^ 52) \<le> \<lfloor>?t\<rfloor>"
    using t(1) by (simp add: le_floor_iff)
  moreover have "\<lfloor>?t\<rfloor> < 2 * 2 ^ 52"
    using t(2) by (simp add: floor_less_iff)
  ultimately have "\<bar>n\<bar> \<le> 2 * 2 ^ 52" by linarith
  then have "\<bar>of_int n :: real\<bar> \<le> of_int (2 * 2 ^ 52)"
    by (simp only: of_int_abs [symmetric] of_int_le_iff)
  then have n53: "\<bar>of_int n :: real\<bar> \<le> 2 ^ 53" by simp
  have one: "(1 :: real) \<le> 2 ^ (52 - e)" by (rule one_le_power) simp
  have "\<bar>of_int n / 2 ^ (52 - e) :: real\<bar> = \<bar>of_int n\<bar> / 2 ^ (52 - e)"
    by (simp add: abs_divide)
  also have "\<dots> \<le> \<bar>of_int n\<bar> / 1"
    using one by (intro divide_left_mono) simp_all
  also have "\<dots> \<le> 2 ^ 53"
    using n53 by simp
  also have "(2 :: real) ^ 53 < 2 ^ 1024"
    by (rule power_strict_increasing) simp_all
  finally have "\<not> overflow64 \<le> \<bar>of_int n / 2 ^ (52 - e) :: real\<bar>"
    by (simp add: overflow64_def)
  moreover have "x / ulp64 x = ?t" by (simp add: u)
  ultimately show ?thesis
    using nz n by (simp add: round64_def Let_def u)
qed

lemma round64_power_of_two:
  assumes "k \<le> 971"
  shows "round64 (2 ^ k) = Finite (2 ^ k)" and "round64 (- (2 ^ k)) = Finite (- (2 ^ k))"
proof -
  have p: "(2 :: real) powr real k = 2 ^ k"
    by (simp add: powr_realpow)
  show "round64 (2 ^ k) = Finite (2 ^ k)"
    using round64_exact [of 1 "int k"] assms by (simp add: p)
  show "round64 (- (2 ^ k)) = Finite (- (2 ^ k))"
    using round64_exact [of "- 1" "int k"] assms by (simp add: p)
qed

subsection \<open>The distances of the inputs where the rounding shows\<close>

text \<open>
  The computation of \<open>np.std\<close>, \<open>normalize\<close> and the score on these inputs,
  operation by operation: each \<open>have\<close> is one binary64 operation with its rounded
  result.
\<close>

lemma normalized_0_0_1:
  shows "np_std [Finite 0, Finite 0, Finite 1] = Finite (4246034448350515 / 2 ^ 53)"
    and "normalize_series [Finite 0, Finite 0, Finite 1] =
      [Finite (- 1592262918131443 / 2 ^ 51), Finite (- 1592262918131443 / 2 ^ 51), Finite (6369051672525773 / 2 ^ 52)]"
proof -
  have f1: "fl_add (Finite 0) (Finite 0) = Finite 0"
    by simp
  have f2: "fl_add (Finite 0) (Finite 1) = Finite 1"
    using round64_dyadic [of 1 0] by simp
  have f3: "fl_div (Finite 1) (Finite 3) = Finite (6004799503160661 / 2 ^ 54)"
    using round64_small [of 2 "1 / 3" 6004799503160661]
    by (simp add: round_half_even_def Let_def)
  have f4: "fl_sub (Finite 0) (Finite (6004799503160661 / 2 ^ 54)) = Finite (- 6004799503160661 / 2 ^ 54)"
    using round64_dyadic [of "- 6004799503160661" 54] by (simp add: fl_sub_def)
  have f5: "fl_sub (Finite 1) (Finite (6004799503160661 / 2 ^ 54)) = Finite (3002399751580331 / 2 ^ 52)"
    using round64_small [of 1 "1 - (6004799503160661 / 2 ^ 54)" 6004799503160662]
    by (simp add: fl_sub_def round_half_even_def Let_def)
  have f6: "fl_mul (Finite (- 6004799503160661 / 2 ^ 54)) (Finite (- 6004799503160661 / 2 ^ 54)) = Finite (2001599834386887 / 2 ^ 54)"
    using round64_small [of 4 "(- 6004799503160661 / 2 ^ 54) * (- 6004799503160661 / 2 ^ 54)" 8006399337547548]
    by (simp add: round_half_even_def Let_def)
  have f7: "fl_mul (Finite (3002399751580331 / 2 ^ 52)) (Finite (3002399751580331 / 2 ^ 52)) = Finite (4003199668773775 / 2 ^ 53)"
    using round64_small [of 2 "(3002399751580331 / 2 ^ 52) * (3002399751580331 / 2 ^ 52)" 8006399337547550]
    by (simp add: round_half_even_def Let_def)
  have f8: "fl_add (Finite 0) (Finite (2001599834386887 / 2 ^ 54)) = Finite (2001599834386887 / 2 ^ 54)"
    using round64_dyadic [of 2001599834386887 54] by simp
  have f9: "fl_add (Finite (2001599834386887 / 2 ^ 54)) (Finite (2001599834386887 / 2 ^ 54)) = Finite (2001599834386887 / 2 ^ 53)"
    using round64_dyadic [of 2001599834386887 53] by simp
  have f10: "fl_add (Finite (2001599834386887 / 2 ^ 53)) (Finite (4003199668773775 / 2 ^ 53)) = Finite (3002399751580331 / 2 ^ 52)"
    using round64_dyadic [of 3002399751580331 52] by simp
  have f11: "fl_add (Finite 0) (Finite (3002399751580331 / 2 ^ 52)) = Finite (3002399751580331 / 2 ^ 52)"
    using round64_dyadic [of 3002399751580331 52] by simp
  have f12: "fl_div (Finite (3002399751580331 / 2 ^ 52)) (Finite 3) = Finite (8006399337547549 / 2 ^ 55)"
    using round64_small [of 3 "(3002399751580331 / 2 ^ 52) / 3" 8006399337547549]
    by (simp add: round_half_even_def Let_def)
  have f13: "fl_sqrt (Finite (8006399337547549 / 2 ^ 55)) = Finite (4246034448350515 / 2 ^ 53)"
    using round64_sqrt_small [of 2 "(8006399337547549 / 2 ^ 55)" 8492068896701030]
    by (simp add: power2_eq_square)
  have f14: "fl_div (Finite (- 6004799503160661 / 2 ^ 54)) (Finite (4246034448350515 / 2 ^ 53)) = Finite (- 1592262918131443 / 2 ^ 51)"
    using round64_small [of 1 "(- 6004799503160661 / 2 ^ 54) / (4246034448350515 / 2 ^ 53)" "- 6369051672525772"]
    by (simp add: round_half_even_def Let_def)
  have f15: "fl_div (Finite (3002399751580331 / 2 ^ 52)) (Finite (4246034448350515 / 2 ^ 53)) = Finite (6369051672525773 / 2 ^ 52)"
    using round64_small [of 0 "(3002399751580331 / 2 ^ 52) / (4246034448350515 / 2 ^ 53)" 6369051672525773]
    by (simp add: round_half_even_def Let_def)
  have len: "Finite (real (length [Finite 0, Finite 0, Finite 1])) = Finite 3"
    by simp
  have total: "np_sum [Finite 0, Finite 0, Finite 1] = Finite 1"
    by (simp only: np_sum_def) (simp only: pairwise_sum_short list.size foldl.simps f1 f2)
  have mean: "np_mean [Finite 0, Finite 0, Finite 1] = Finite (6004799503160661 / 2 ^ 54)"
    by (simp only: np_mean_def total len f3)
  have squares: "np_sum [Finite (2001599834386887 / 2 ^ 54), Finite (2001599834386887 / 2 ^ 54), Finite (4003199668773775 / 2 ^ 53)] = Finite (3002399751580331 / 2 ^ 52)"
    by (simp only: np_sum_def) (simp only: pairwise_sum_short list.size foldl.simps f8 f9 f10 f11)
  have std: "np_std [Finite 0, Finite 0, Finite 1] = Finite (4246034448350515 / 2 ^ 53)"
    by (simp only: np_std_def Let_def mean len list.map f4 f5 f6 f7 squares f12 f13)
  have normalized: "normalize_series [Finite 0, Finite 0, Finite 1] =
      [Finite (- 1592262918131443 / 2 ^ 51), Finite (- 1592262918131443 / 2 ^ 51), Finite (6369051672525773 / 2 ^ 52)]"
    by (simp only: normalize_series_def mean std list.map f4 f5 f14 f15)
  show "np_std [Finite 0, Finite 0, Finite 1] = Finite (4246034448350515 / 2 ^ 53)"
    by (rule std)
  show "normalize_series [Finite 0, Finite 0, Finite 1] =
      [Finite (- 1592262918131443 / 2 ^ 51), Finite (- 1592262918131443 / 2 ^ 51), Finite (6369051672525773 / 2 ^ 52)]"
    by (rule normalized)
qed

lemma normalized_0_0_3:
  shows "np_std [Finite 0, Finite 0, Finite 3] = Finite (6369051672525773 / 2 ^ 52)"
    and "normalize_series [Finite 0, Finite 0, Finite 3] =
      [Finite (- 1592262918131443 / 2 ^ 51), Finite (- 1592262918131443 / 2 ^ 51), Finite (1592262918131443 / 2 ^ 50)]"
proof -
  have f1: "fl_add (Finite 0) (Finite 0) = Finite 0"
    by simp
  have f2: "fl_add (Finite 0) (Finite 3) = Finite 3"
    using round64_dyadic [of 3 0] by simp
  have f3: "fl_div (Finite 3) (Finite 3) = Finite 1"
    using round64_dyadic [of 1 0] by simp
  have f4: "fl_sub (Finite 0) (Finite 1) = Finite (- 1)"
    using round64_dyadic [of "- 1" 0] by (simp add: fl_sub_def)
  have f5: "fl_sub (Finite 3) (Finite 1) = Finite 2"
    using round64_dyadic [of 2 0] by (simp add: fl_sub_def)
  have f6: "fl_mul (Finite (- 1)) (Finite (- 1)) = Finite 1"
    using round64_dyadic [of 1 0] by simp
  have f7: "fl_mul (Finite 2) (Finite 2) = Finite 4"
    using round64_dyadic [of 4 0] by simp
  have f8: "fl_add (Finite 0) (Finite 1) = Finite 1"
    using round64_dyadic [of 1 0] by simp
  have f9: "fl_add (Finite 1) (Finite 1) = Finite 2"
    using round64_dyadic [of 2 0] by simp
  have f10: "fl_add (Finite 2) (Finite 4) = Finite 6"
    using round64_dyadic [of 6 0] by simp
  have f11: "fl_add (Finite 0) (Finite 6) = Finite 6"
    using round64_dyadic [of 6 0] by simp
  have f12: "fl_div (Finite 6) (Finite 3) = Finite 2"
    using round64_dyadic [of 2 0] by simp
  have f13: "fl_sqrt (Finite 2) = Finite (6369051672525773 / 2 ^ 52)"
    using round64_sqrt_small [of 0 "2" 6369051672525773]
    by (simp add: power2_eq_square)
  have f14: "fl_div (Finite (- 1)) (Finite (6369051672525773 / 2 ^ 52)) = Finite (- 1592262918131443 / 2 ^ 51)"
    using round64_small [of 1 "(- 1) / (6369051672525773 / 2 ^ 52)" "- 6369051672525772"]
    by (simp add: round_half_even_def Let_def)
  have f15: "fl_div (Finite 2) (Finite (6369051672525773 / 2 ^ 52)) = Finite (1592262918131443 / 2 ^ 50)"
    using round64_small [of 0 "2 / (6369051672525773 / 2 ^ 52)" 6369051672525772]
    by (simp add: round_half_even_def Let_def)
  have len: "Finite (real (length [Finite 0, Finite 0, Finite 3])) = Finite 3"
    by simp
  have total: "np_sum [Finite 0, Finite 0, Finite 3] = Finite 3"
    by (simp only: np_sum_def) (simp only: pairwise_sum_short list.size foldl.simps f1 f2)
  have mean: "np_mean [Finite 0, Finite 0, Finite 3] = Finite 1"
    by (simp only: np_mean_def total len f3)
  have squares: "np_sum [Finite 1, Finite 1, Finite 4] = Finite 6"
    by (simp only: np_sum_def) (simp only: pairwise_sum_short list.size foldl.simps f8 f9 f10 f11)
  have std: "np_std [Finite 0, Finite 0, Finite 3] = Finite (6369051672525773 / 2 ^ 52)"
    by (simp only: np_std_def Let_def mean len list.map f4 f5 f6 f7 squares f12 f13)
  have normalized: "normalize_series [Finite 0, Finite 0, Finite 3] =
      [Finite (- 1592262918131443 / 2 ^ 51), Finite (- 1592262918131443 / 2 ^ 51), Finite (1592262918131443 / 2 ^ 50)]"
    by (simp only: normalize_series_def mean std list.map f4 f5 f14 f15)
  show "np_std [Finite 0, Finite 0, Finite 3] = Finite (6369051672525773 / 2 ^ 52)"
    by (rule std)
  show "normalize_series [Finite 0, Finite 0, Finite 3] =
      [Finite (- 1592262918131443 / 2 ^ 51), Finite (- 1592262918131443 / 2 ^ 51), Finite (1592262918131443 / 2 ^ 50)]"
    by (rule normalized)
qed

lemma series_dist_0_0_1_0_0_3:
  "series_dist [Finite 0, Finite 0, Finite 1] [Finite 0, Finite 0, Finite 3] = Inr (Finite (1 / 2 ^ 104))"
proof -
  have f1: "fl_sub (Finite (- 1592262918131443 / 2 ^ 51)) (Finite (- 1592262918131443 / 2 ^ 51)) = Finite 0"
    by (simp add: fl_sub_def)
  have f2: "fl_sub (Finite (6369051672525773 / 2 ^ 52)) (Finite (1592262918131443 / 2 ^ 50)) = Finite (1 / 2 ^ 52)"
    using round64_dyadic [of 1 52] by (simp add: fl_sub_def)
  have f3: "fl_mul (Finite 0) (Finite 0) = Finite 0"
    by simp
  have f4: "fl_mul (Finite (1 / 2 ^ 52)) (Finite (1 / 2 ^ 52)) = Finite (1 / 2 ^ 104)"
    using round64_dyadic [of 1 104] by simp
  have f5: "fl_add (Finite 0) (Finite 0) = Finite 0"
    by simp
  have f6: "fl_add (Finite 0) (Finite (1 / 2 ^ 104)) = Finite (1 / 2 ^ 104)"
    using round64_dyadic [of 1 104] by simp
  have same_length: "(length [Finite (- 1592262918131443 / 2 ^ 51), Finite (- 1592262918131443 / 2 ^ 51), Finite (6369051672525773 / 2 ^ 52)] = length [Finite (- 1592262918131443 / 2 ^ 51), Finite (- 1592262918131443 / 2 ^ 51), Finite (1592262918131443 / 2 ^ 50)]) = True"
    by simp
  have differences: "map2 fl_sub [Finite (- 1592262918131443 / 2 ^ 51), Finite (- 1592262918131443 / 2 ^ 51), Finite (6369051672525773 / 2 ^ 52)]
      [Finite (- 1592262918131443 / 2 ^ 51), Finite (- 1592262918131443 / 2 ^ 51), Finite (1592262918131443 / 2 ^ 50)] =
      [Finite 0, Finite 0, Finite (1 / 2 ^ 52)]"
    by (simp only: zip_Cons_Cons zip_Nil list.map prod.case f1 f2)
  have squares: "map (\<lambda>d. fl_mul d d) [Finite 0, Finite 0, Finite (1 / 2 ^ 52)] =
      [Finite 0, Finite 0, Finite (1 / 2 ^ 104)]"
    by (simp only: list.map f3 f4)
  have total: "np_sum [Finite 0, Finite 0, Finite (1 / 2 ^ 104)] = Finite (1 / 2 ^ 104)"
    by (simp only: np_sum_def) (simp only: pairwise_sum_short list.size foldl.simps f5 f6)
  show ?thesis
    by (simp only: series_dist_def normalized_0_0_1(2) normalized_0_0_3(2) np_sub_def same_length if_True
        and_then_Inr differences squares total)
qed

lemma series_dist_0_0_1_0_0_1:
  "series_dist [Finite 0, Finite 0, Finite 1] [Finite 0, Finite 0, Finite 1] = Inr (Finite 0)"
proof -
  have f1: "fl_sub (Finite (- 1592262918131443 / 2 ^ 51)) (Finite (- 1592262918131443 / 2 ^ 51)) = Finite 0"
    by (simp add: fl_sub_def)
  have f2: "fl_sub (Finite (6369051672525773 / 2 ^ 52)) (Finite (6369051672525773 / 2 ^ 52)) = Finite 0"
    by (simp add: fl_sub_def)
  have f3: "fl_mul (Finite 0) (Finite 0) = Finite 0"
    by simp
  have f4: "fl_add (Finite 0) (Finite 0) = Finite 0"
    by simp
  have same_length: "(length [Finite (- 1592262918131443 / 2 ^ 51), Finite (- 1592262918131443 / 2 ^ 51), Finite (6369051672525773 / 2 ^ 52)] = length [Finite (- 1592262918131443 / 2 ^ 51), Finite (- 1592262918131443 / 2 ^ 51), Finite (6369051672525773 / 2 ^ 52)]) = True"
    by simp
  have differences: "map2 fl_sub [Finite (- 1592262918131443 / 2 ^ 51), Finite (- 1592262918131443 / 2 ^ 51), Finite (6369051672525773 / 2 ^ 52)]
      [Finite (- 1592262918131443 / 2 ^ 51), Finite (- 1592262918131443 / 2 ^ 51), Finite (6369051672525773 / 2 ^ 52)] =
      [Finite 0, Finite 0, Finite 0]"
    by (simp only: zip_Cons_Cons zip_Nil list.map prod.case f1 f2)
  have squares: "map (\<lambda>d. fl_mul d d) [Finite 0, Finite 0, Finite 0] =
      [Finite 0, Finite 0, Finite 0]"
    by (simp only: list.map f3)
  have total: "np_sum [Finite 0, Finite 0, Finite 0] = Finite 0"
    by (simp only: np_sum_def) (simp only: pairwise_sum_short list.size foldl.simps f4)
  show ?thesis
    by (simp only: series_dist_def normalized_0_0_1(2) normalized_0_0_1(2) np_sub_def same_length if_True
        and_then_Inr differences squares total)
qed

lemma series_dist_0_0_3_0_0_1:
  "series_dist [Finite 0, Finite 0, Finite 3] [Finite 0, Finite 0, Finite 1] = Inr (Finite (1 / 2 ^ 104))"
proof -
  have f1: "fl_sub (Finite (- 1592262918131443 / 2 ^ 51)) (Finite (- 1592262918131443 / 2 ^ 51)) = Finite 0"
    by (simp add: fl_sub_def)
  have f2: "fl_sub (Finite (1592262918131443 / 2 ^ 50)) (Finite (6369051672525773 / 2 ^ 52)) = Finite (- 1 / 2 ^ 52)"
    using round64_dyadic [of "- 1" 52] by (simp add: fl_sub_def)
  have f3: "fl_mul (Finite 0) (Finite 0) = Finite 0"
    by simp
  have f4: "fl_mul (Finite (- 1 / 2 ^ 52)) (Finite (- 1 / 2 ^ 52)) = Finite (1 / 2 ^ 104)"
    using round64_dyadic [of 1 104] by simp
  have f5: "fl_add (Finite 0) (Finite 0) = Finite 0"
    by simp
  have f6: "fl_add (Finite 0) (Finite (1 / 2 ^ 104)) = Finite (1 / 2 ^ 104)"
    using round64_dyadic [of 1 104] by simp
  have same_length: "(length [Finite (- 1592262918131443 / 2 ^ 51), Finite (- 1592262918131443 / 2 ^ 51), Finite (1592262918131443 / 2 ^ 50)] = length [Finite (- 1592262918131443 / 2 ^ 51), Finite (- 1592262918131443 / 2 ^ 51), Finite (6369051672525773 / 2 ^ 52)]) = True"
    by simp
  have differences: "map2 fl_sub [Finite (- 1592262918131443 / 2 ^ 51), Finite (- 1592262918131443 / 2 ^ 51), Finite (1592262918131443 / 2 ^ 50)]
      [Finite (- 1592262918131443 / 2 ^ 51), Finite (- 1592262918131443 / 2 ^ 51), Finite (6369051672525773 / 2 ^ 52)] =
      [Finite 0, Finite 0, Finite (- 1 / 2 ^ 52)]"
    by (simp only: zip_Cons_Cons zip_Nil list.map prod.case f1 f2)
  have squares: "map (\<lambda>d. fl_mul d d) [Finite 0, Finite 0, Finite (- 1 / 2 ^ 52)] =
      [Finite 0, Finite 0, Finite (1 / 2 ^ 104)]"
    by (simp only: list.map f3 f4)
  have total: "np_sum [Finite 0, Finite 0, Finite (1 / 2 ^ 104)] = Finite (1 / 2 ^ 104)"
    by (simp only: np_sum_def) (simp only: pairwise_sum_short list.size foldl.simps f5 f6)
  show ?thesis
    by (simp only: series_dist_def normalized_0_0_3(2) normalized_0_0_1(2) np_sub_def same_length if_True
        and_then_Inr differences squares total)
qed

lemma normalized_tenths:
  shows "np_std tenths = Finite (1 / 2 ^ 56)"
    and "normalize_series tenths =
      [Finite (- 1), Finite (- 1), Finite (- 1)]"
proof -
  have f1: "fl_add (Finite 0) (Finite (3602879701896397 / 2 ^ 55)) = Finite (3602879701896397 / 2 ^ 55)"
    using round64_dyadic [of 3602879701896397 55] by simp
  have f2: "fl_add (Finite (3602879701896397 / 2 ^ 55)) (Finite (3602879701896397 / 2 ^ 55)) = Finite (3602879701896397 / 2 ^ 54)"
    using round64_dyadic [of 3602879701896397 54] by simp
  have f3: "fl_add (Finite (3602879701896397 / 2 ^ 54)) (Finite (3602879701896397 / 2 ^ 55)) = Finite (1351079888211149 / 2 ^ 52)"
    using round64_small [of 2 "(3602879701896397 / 2 ^ 54) + (3602879701896397 / 2 ^ 55)" 5404319552844596]
    by (simp add: round_half_even_def Let_def)
  have f4: "fl_add (Finite 0) (Finite (1351079888211149 / 2 ^ 52)) = Finite (1351079888211149 / 2 ^ 52)"
    using round64_dyadic [of 1351079888211149 52] by simp
  have f5: "fl_div (Finite (1351079888211149 / 2 ^ 52)) (Finite 3) = Finite (7205759403792795 / 2 ^ 56)"
    using round64_small [of 4 "(1351079888211149 / 2 ^ 52) / 3" 7205759403792795]
    by (simp add: round_half_even_def Let_def)
  have f6: "fl_sub (Finite (3602879701896397 / 2 ^ 55)) (Finite (7205759403792795 / 2 ^ 56)) = Finite (- 1 / 2 ^ 56)"
    using round64_dyadic [of "- 1" 56] by (simp add: fl_sub_def)
  have f7: "fl_mul (Finite (- 1 / 2 ^ 56)) (Finite (- 1 / 2 ^ 56)) = Finite (1 / 2 ^ 112)"
    using round64_dyadic [of 1 112] by simp
  have f8: "fl_add (Finite 0) (Finite (1 / 2 ^ 112)) = Finite (1 / 2 ^ 112)"
    using round64_dyadic [of 1 112] by simp
  have f9: "fl_add (Finite (1 / 2 ^ 112)) (Finite (1 / 2 ^ 112)) = Finite (1 / 2 ^ 111)"
    using round64_dyadic [of 1 111] by simp
  have f10: "fl_add (Finite (1 / 2 ^ 111)) (Finite (1 / 2 ^ 112)) = Finite (3 / 2 ^ 112)"
    using round64_dyadic [of 3 112] by simp
  have f11: "fl_add (Finite 0) (Finite (3 / 2 ^ 112)) = Finite (3 / 2 ^ 112)"
    using round64_dyadic [of 3 112] by simp
  have f12: "fl_div (Finite (3 / 2 ^ 112)) (Finite 3) = Finite (1 / 2 ^ 112)"
    using round64_dyadic [of 1 112] by simp
  have f13: "fl_sqrt (Finite (1 / 2 ^ 112)) = Finite (1 / 2 ^ 56)"
    proof -
    have root: "sqrt (1 / 2 ^ 112) = (1 / 2 ^ 56)"
      by (rule real_sqrt_unique) (simp_all add: power2_eq_square)
    have nonneg: "\<not> ((1 / 2 ^ 112) :: real) < 0"
      by simp
    have "fl_sqrt (Finite (1 / 2 ^ 112)) = round64 (1 / 2 ^ 56)"
      by (simp only: fl_sqrt.simps nonneg if_False root)
    also have "\<dots> = Finite (1 / 2 ^ 56)"
      using round64_dyadic [of 1 56] by simp
    finally show ?thesis .
  qed
  have f14: "fl_div (Finite (- 1 / 2 ^ 56)) (Finite (1 / 2 ^ 56)) = Finite (- 1)"
    using round64_dyadic [of "- 1" 0] by simp
  have len: "Finite (real (length [Finite (3602879701896397 / 2 ^ 55), Finite (3602879701896397 / 2 ^ 55), Finite (3602879701896397 / 2 ^ 55)])) = Finite 3"
    by simp
  have total: "np_sum [Finite (3602879701896397 / 2 ^ 55), Finite (3602879701896397 / 2 ^ 55), Finite (3602879701896397 / 2 ^ 55)] = Finite (1351079888211149 / 2 ^ 52)"
    by (simp only: np_sum_def) (simp only: pairwise_sum_short list.size foldl.simps f1 f2 f3 f4)
  have mean: "np_mean [Finite (3602879701896397 / 2 ^ 55), Finite (3602879701896397 / 2 ^ 55), Finite (3602879701896397 / 2 ^ 55)] = Finite (7205759403792795 / 2 ^ 56)"
    by (simp only: np_mean_def total len f5)
  have squares: "np_sum [Finite (1 / 2 ^ 112), Finite (1 / 2 ^ 112), Finite (1 / 2 ^ 112)] = Finite (3 / 2 ^ 112)"
    by (simp only: np_sum_def) (simp only: pairwise_sum_short list.size foldl.simps f8 f9 f10 f11)
  have std: "np_std [Finite (3602879701896397 / 2 ^ 55), Finite (3602879701896397 / 2 ^ 55), Finite (3602879701896397 / 2 ^ 55)] = Finite (1 / 2 ^ 56)"
    by (simp only: np_std_def Let_def mean len list.map f6 f7 squares f12 f13)
  have normalized: "normalize_series [Finite (3602879701896397 / 2 ^ 55), Finite (3602879701896397 / 2 ^ 55), Finite (3602879701896397 / 2 ^ 55)] =
      [Finite (- 1), Finite (- 1), Finite (- 1)]"
    by (simp only: normalize_series_def mean std list.map f6 f14)
  show "np_std tenths = Finite (1 / 2 ^ 56)"
    by (simp only: tenths_def std)
  show "normalize_series tenths =
      [Finite (- 1), Finite (- 1), Finite (- 1)]"
    by (simp only: tenths_def normalized)
qed

lemma normalized_1_2_3:
  shows "np_std [Finite 1, Finite 2, Finite 3] = Finite (3677173697615391 / 2 ^ 52)"
    and "normalize_series [Finite 1, Finite 2, Finite 3] =
      [Finite (- 2757880273211543 / 2 ^ 51), Finite 0, Finite (2757880273211543 / 2 ^ 51)]"
proof -
  have f1: "fl_add (Finite 0) (Finite 1) = Finite 1"
    using round64_dyadic [of 1 0] by simp
  have f2: "fl_add (Finite 1) (Finite 2) = Finite 3"
    using round64_dyadic [of 3 0] by simp
  have f3: "fl_add (Finite 3) (Finite 3) = Finite 6"
    using round64_dyadic [of 6 0] by simp
  have f4: "fl_add (Finite 0) (Finite 6) = Finite 6"
    using round64_dyadic [of 6 0] by simp
  have f5: "fl_div (Finite 6) (Finite 3) = Finite 2"
    using round64_dyadic [of 2 0] by simp
  have f6: "fl_sub (Finite 1) (Finite 2) = Finite (- 1)"
    using round64_dyadic [of "- 1" 0] by (simp add: fl_sub_def)
  have f7: "fl_sub (Finite 2) (Finite 2) = Finite 0"
    by (simp add: fl_sub_def)
  have f8: "fl_sub (Finite 3) (Finite 2) = Finite 1"
    using round64_dyadic [of 1 0] by (simp add: fl_sub_def)
  have f9: "fl_mul (Finite (- 1)) (Finite (- 1)) = Finite 1"
    using round64_dyadic [of 1 0] by simp
  have f10: "fl_mul (Finite 0) (Finite 0) = Finite 0"
    by simp
  have f11: "fl_mul (Finite 1) (Finite 1) = Finite 1"
    using round64_dyadic [of 1 0] by simp
  have f12: "fl_add (Finite 1) (Finite 0) = Finite 1"
    using round64_dyadic [of 1 0] by simp
  have f13: "fl_add (Finite 1) (Finite 1) = Finite 2"
    using round64_dyadic [of 2 0] by simp
  have f14: "fl_add (Finite 0) (Finite 2) = Finite 2"
    using round64_dyadic [of 2 0] by simp
  have f15: "fl_div (Finite 2) (Finite 3) = Finite (6004799503160661 / 2 ^ 53)"
    using round64_small [of 1 "2 / 3" 6004799503160661]
    by (simp add: round_half_even_def Let_def)
  have f16: "fl_sqrt (Finite (6004799503160661 / 2 ^ 53)) = Finite (3677173697615391 / 2 ^ 52)"
    using round64_sqrt_small [of 1 "(6004799503160661 / 2 ^ 53)" 7354347395230782]
    by (simp add: power2_eq_square)
  have f17: "fl_div (Finite (- 1)) (Finite (3677173697615391 / 2 ^ 52)) = Finite (- 2757880273211543 / 2 ^ 51)"
    using round64_small [of 0 "(- 1) / (3677173697615391 / 2 ^ 52)" "- 5515760546423086"]
    by (simp add: round_half_even_def Let_def)
  have f18: "fl_div (Finite 0) (Finite (3677173697615391 / 2 ^ 52)) = Finite 0"
    by simp
  have f19: "fl_div (Finite 1) (Finite (3677173697615391 / 2 ^ 52)) = Finite (2757880273211543 / 2 ^ 51)"
    using round64_small [of 0 "1 / (3677173697615391 / 2 ^ 52)" 5515760546423086]
    by (simp add: round_half_even_def Let_def)
  have len: "Finite (real (length [Finite 1, Finite 2, Finite 3])) = Finite 3"
    by simp
  have total: "np_sum [Finite 1, Finite 2, Finite 3] = Finite 6"
    by (simp only: np_sum_def) (simp only: pairwise_sum_short list.size foldl.simps f1 f2 f3 f4)
  have mean: "np_mean [Finite 1, Finite 2, Finite 3] = Finite 2"
    by (simp only: np_mean_def total len f5)
  have squares: "np_sum [Finite 1, Finite 0, Finite 1] = Finite 2"
    by (simp only: np_sum_def) (simp only: pairwise_sum_short list.size foldl.simps f1 f12 f13 f14)
  have std: "np_std [Finite 1, Finite 2, Finite 3] = Finite (3677173697615391 / 2 ^ 52)"
    by (simp only: np_std_def Let_def mean len list.map f6 f7 f8 f9 f10 f11 squares f15 f16)
  have normalized: "normalize_series [Finite 1, Finite 2, Finite 3] =
      [Finite (- 2757880273211543 / 2 ^ 51), Finite 0, Finite (2757880273211543 / 2 ^ 51)]"
    by (simp only: normalize_series_def mean std list.map f6 f7 f8 f17 f18 f19)
  show "np_std [Finite 1, Finite 2, Finite 3] = Finite (3677173697615391 / 2 ^ 52)"
    by (rule std)
  show "normalize_series [Finite 1, Finite 2, Finite 3] =
      [Finite (- 2757880273211543 / 2 ^ 51), Finite 0, Finite (2757880273211543 / 2 ^ 51)]"
    by (rule normalized)
qed

lemma series_dist_tenths_1_2_3:
  "series_dist tenths [Finite 1, Finite 2, Finite 3] = Inr (Finite 6)"
proof -
  have f1: "fl_sub (Finite (- 1)) (Finite (- 2757880273211543 / 2 ^ 51)) = Finite (506080459526295 / 2 ^ 51)"
    using round64_dyadic [of 506080459526295 51] by (simp add: fl_sub_def)
  have f2: "fl_sub (Finite (- 1)) (Finite 0) = Finite (- 1)"
    using round64_dyadic [of "- 1" 0] by (simp add: fl_sub_def)
  have f3: "fl_sub (Finite (- 1)) (Finite (2757880273211543 / 2 ^ 51)) = Finite (- 5009680086896791 / 2 ^ 51)"
    using round64_dyadic [of "- 5009680086896791" 51] by (simp add: fl_sub_def)
  have f4: "fl_mul (Finite (506080459526295 / 2 ^ 51)) (Finite (506080459526295 / 2 ^ 51)) = Finite (3639647609281069 / 2 ^ 56)"
    using round64_small [of 5 "(506080459526295 / 2 ^ 51) * (506080459526295 / 2 ^ 51)" 7279295218562138]
    by (simp add: round_half_even_def Let_def)
  have f5: "fl_mul (Finite (- 1)) (Finite (- 1)) = Finite 1"
    using round64_dyadic [of 1 0] by simp
  have f6: "fl_mul (Finite (- 5009680086896791 / 2 ^ 51)) (Finite (- 5009680086896791 / 2 ^ 51)) = Finite (5572630040318103 / 2 ^ 50)"
    using round64_mid [of 2 "(- 5009680086896791 / 2 ^ 51) * (- 5009680086896791 / 2 ^ 51)" 5572630040318103]
    by (simp add: round_half_even_def Let_def)
  have f7: "fl_add (Finite 0) (Finite (3639647609281069 / 2 ^ 56)) = Finite (3639647609281069 / 2 ^ 56)"
    using round64_dyadic [of 3639647609281069 56] by simp
  have f8: "fl_add (Finite (3639647609281069 / 2 ^ 56)) (Finite 1) = Finite (4731077602950563 / 2 ^ 52)"
    using round64_small [of 0 "(3639647609281069 / 2 ^ 56) + 1" 4731077602950563]
    by (simp add: round_half_even_def Let_def)
  have f9: "fl_add (Finite (4731077602950563 / 2 ^ 52)) (Finite (5572630040318103 / 2 ^ 50)) = Finite 6"
    using round64_mid [of 2 "(4731077602950563 / 2 ^ 52) + (5572630040318103 / 2 ^ 50)" 6755399441055744]
    by (simp add: round_half_even_def Let_def)
  have f10: "fl_add (Finite 0) (Finite 6) = Finite 6"
    using round64_dyadic [of 6 0] by simp
  have same_length: "(length [Finite (- 1), Finite (- 1), Finite (- 1)] = length [Finite (- 2757880273211543 / 2 ^ 51), Finite 0, Finite (2757880273211543 / 2 ^ 51)]) = True"
    by simp
  have differences: "map2 fl_sub [Finite (- 1), Finite (- 1), Finite (- 1)]
      [Finite (- 2757880273211543 / 2 ^ 51), Finite 0, Finite (2757880273211543 / 2 ^ 51)] =
      [Finite (506080459526295 / 2 ^ 51), Finite (- 1), Finite (- 5009680086896791 / 2 ^ 51)]"
    by (simp only: zip_Cons_Cons zip_Nil list.map prod.case f1 f2 f3)
  have squares: "map (\<lambda>d. fl_mul d d) [Finite (506080459526295 / 2 ^ 51), Finite (- 1), Finite (- 5009680086896791 / 2 ^ 51)] =
      [Finite (3639647609281069 / 2 ^ 56), Finite 1, Finite (5572630040318103 / 2 ^ 50)]"
    by (simp only: list.map f4 f5 f6)
  have total: "np_sum [Finite (3639647609281069 / 2 ^ 56), Finite 1, Finite (5572630040318103 / 2 ^ 50)] = Finite 6"
    by (simp only: np_sum_def) (simp only: pairwise_sum_short list.size foldl.simps f7 f8 f9 f10)
  show ?thesis
    by (simp only: series_dist_def normalized_tenths(2) normalized_1_2_3(2) np_sub_def same_length if_True
        and_then_Inr differences squares total)
qed

lemma normalized_0_1:
  shows "np_std [Finite 0, Finite 1] = Finite (1 / 2 ^ 1)"
    and "normalize_series [Finite 0, Finite 1] =
      [Finite (- 1), Finite 1]"
proof -
  have f1: "fl_add (Finite 0) (Finite 0) = Finite 0"
    by simp
  have f2: "fl_add (Finite 0) (Finite 1) = Finite 1"
    using round64_dyadic [of 1 0] by simp
  have f3: "fl_div (Finite 1) (Finite 2) = Finite (1 / 2 ^ 1)"
    using round64_dyadic [of 1 1] by simp
  have f4: "fl_sub (Finite 0) (Finite (1 / 2 ^ 1)) = Finite (- 1 / 2 ^ 1)"
    using round64_dyadic [of "- 1" 1] by (simp add: fl_sub_def)
  have f5: "fl_sub (Finite 1) (Finite (1 / 2 ^ 1)) = Finite (1 / 2 ^ 1)"
    using round64_dyadic [of 1 1] by (simp add: fl_sub_def)
  have f6: "fl_mul (Finite (- 1 / 2 ^ 1)) (Finite (- 1 / 2 ^ 1)) = Finite (1 / 2 ^ 2)"
    using round64_dyadic [of 1 2] by simp
  have f7: "fl_mul (Finite (1 / 2 ^ 1)) (Finite (1 / 2 ^ 1)) = Finite (1 / 2 ^ 2)"
    using round64_dyadic [of 1 2] by simp
  have f8: "fl_add (Finite 0) (Finite (1 / 2 ^ 2)) = Finite (1 / 2 ^ 2)"
    using round64_dyadic [of 1 2] by simp
  have f9: "fl_add (Finite (1 / 2 ^ 2)) (Finite (1 / 2 ^ 2)) = Finite (1 / 2 ^ 1)"
    using round64_dyadic [of 1 1] by simp
  have f10: "fl_add (Finite 0) (Finite (1 / 2 ^ 1)) = Finite (1 / 2 ^ 1)"
    using round64_dyadic [of 1 1] by simp
  have f11: "fl_div (Finite (1 / 2 ^ 1)) (Finite 2) = Finite (1 / 2 ^ 2)"
    using round64_dyadic [of 1 2] by simp
  have f12: "fl_sqrt (Finite (1 / 2 ^ 2)) = Finite (1 / 2 ^ 1)"
    proof -
    have root: "sqrt (1 / 2 ^ 2) = (1 / 2 ^ 1)"
      by (rule real_sqrt_unique) (simp_all add: power2_eq_square)
    have nonneg: "\<not> ((1 / 2 ^ 2) :: real) < 0"
      by simp
    have "fl_sqrt (Finite (1 / 2 ^ 2)) = round64 (1 / 2 ^ 1)"
      by (simp only: fl_sqrt.simps nonneg if_False root)
    also have "\<dots> = Finite (1 / 2 ^ 1)"
      using round64_dyadic [of 1 1] by simp
    finally show ?thesis .
  qed
  have f13: "fl_div (Finite (- 1 / 2 ^ 1)) (Finite (1 / 2 ^ 1)) = Finite (- 1)"
    using round64_dyadic [of "- 1" 0] by simp
  have f14: "fl_div (Finite (1 / 2 ^ 1)) (Finite (1 / 2 ^ 1)) = Finite 1"
    using round64_dyadic [of 1 0] by simp
  have len: "Finite (real (length [Finite 0, Finite 1])) = Finite 2"
    by simp
  have total: "np_sum [Finite 0, Finite 1] = Finite 1"
    by (simp only: np_sum_def) (simp only: pairwise_sum_short list.size foldl.simps f1 f2)
  have mean: "np_mean [Finite 0, Finite 1] = Finite (1 / 2 ^ 1)"
    by (simp only: np_mean_def total len f3)
  have squares: "np_sum [Finite (1 / 2 ^ 2), Finite (1 / 2 ^ 2)] = Finite (1 / 2 ^ 1)"
    by (simp only: np_sum_def) (simp only: pairwise_sum_short list.size foldl.simps f8 f9 f10)
  have std: "np_std [Finite 0, Finite 1] = Finite (1 / 2 ^ 1)"
    by (simp only: np_std_def Let_def mean len list.map f4 f5 f6 f7 squares f11 f12)
  have normalized: "normalize_series [Finite 0, Finite 1] =
      [Finite (- 1), Finite 1]"
    by (simp only: normalize_series_def mean std list.map f4 f5 f13 f14)
  show "np_std [Finite 0, Finite 1] = Finite (1 / 2 ^ 1)"
    by (rule std)
  show "normalize_series [Finite 0, Finite 1] =
      [Finite (- 1), Finite 1]"
    by (rule normalized)
qed

lemma normalized_steep:
  shows "np_std steep = PInf" and "normalize_series steep = [Finite 0, Finite 0]"
proof -
  have half: "(2 :: real) ^ 700 / 2 = 2 ^ 699" "(2 :: real) ^ 700 - 2 ^ 699 = 2 ^ 699"
    by simp_all
  have f1: "fl_add (Finite 0) (Finite 0) = Finite 0"
    by simp
  have f2: "fl_add (Finite 0) (Finite (2 ^ 700)) = Finite (2 ^ 700)"
    using round64_power_of_two(1) [of 700] by simp
  have f3: "fl_div (Finite (2 ^ 700)) (Finite 2) = Finite (2 ^ 699)"
    using round64_power_of_two(1) [of 699] by (simp add: half)
  have f4: "fl_sub (Finite 0) (Finite (2 ^ 699)) = Finite (- (2 ^ 699))"
    using round64_power_of_two(2) [of 699] by (simp add: fl_sub_def)
  have f5: "fl_sub (Finite (2 ^ 700)) (Finite (2 ^ 699)) = Finite (2 ^ 699)"
    using round64_power_of_two(1) [of 699] by (simp add: fl_sub_def half)
  have over: "round64 (2 ^ 699 * 2 ^ 699) = PInf"
    by (rule round64_overflow) (simp add: overflow64_def)
  have f6: "fl_mul (Finite (- (2 ^ 699))) (Finite (- (2 ^ 699))) = PInf"
    using over by simp
  have f7: "fl_mul (Finite (2 ^ 699)) (Finite (2 ^ 699)) = PInf"
    using over by simp
  have f8: "fl_add (Finite 0) PInf = PInf" "fl_add PInf PInf = PInf"
    by simp_all
  have f9: "fl_div PInf (Finite 2) = PInf"
    by (simp add: signed_inf_def)
  have f10: "fl_sqrt PInf = PInf"
    by simp
  have f11: "fl_div (Finite (- (2 ^ 699))) PInf = Finite 0" "fl_div (Finite (2 ^ 699)) PInf = Finite 0"
    by simp_all
  have len: "Finite (real (length [Finite 0, Finite (2 ^ 700)])) = Finite 2"
    by simp
  have total: "np_sum [Finite 0, Finite (2 ^ 700)] = Finite (2 ^ 700)"
    by (simp only: np_sum_def) (simp only: pairwise_sum_short list.size foldl.simps f1 f2)
  have mean: "np_mean [Finite 0, Finite (2 ^ 700)] = Finite (2 ^ 699)"
    by (simp only: np_mean_def total len f3)
  have squares: "np_sum [PInf, PInf] = PInf"
    by (simp only: np_sum_def) (simp only: pairwise_sum_short list.size foldl.simps f8)
  have std: "np_std [Finite 0, Finite (2 ^ 700)] = PInf"
    by (simp only: np_std_def Let_def mean len list.map f4 f5 f6 f7 squares f9 f10)
  have normalized: "normalize_series [Finite 0, Finite (2 ^ 700)] = [Finite 0, Finite 0]"
    by (simp only: normalize_series_def mean std list.map f4 f5 f11)
  show "np_std steep = PInf"
    by (simp only: steep_def std)
  show "normalize_series steep = [Finite 0, Finite 0]"
    by (simp only: steep_def normalized)
qed

lemma series_dist_steep_0_1:
  "series_dist steep [Finite 0, Finite 1] = Inr (Finite 2)"
proof -
  have f1: "fl_sub (Finite 0) (Finite (- 1)) = Finite 1"
    using round64_dyadic [of 1 0] by (simp add: fl_sub_def)
  have f2: "fl_sub (Finite 0) (Finite 1) = Finite (- 1)"
    using round64_dyadic [of "- 1" 0] by (simp add: fl_sub_def)
  have f3: "fl_mul (Finite 1) (Finite 1) = Finite 1"
    using round64_dyadic [of 1 0] by simp
  have f4: "fl_mul (Finite (- 1)) (Finite (- 1)) = Finite 1"
    using round64_dyadic [of 1 0] by simp
  have f5: "fl_add (Finite 0) (Finite 1) = Finite 1"
    using round64_dyadic [of 1 0] by simp
  have f6: "fl_add (Finite 1) (Finite 1) = Finite 2"
    using round64_dyadic [of 2 0] by simp
  have f7: "fl_add (Finite 0) (Finite 2) = Finite 2"
    using round64_dyadic [of 2 0] by simp
  have same_length: "(length [Finite 0, Finite 0] = length [Finite (- 1), Finite 1]) = True"
    by simp
  have differences: "map2 fl_sub [Finite 0, Finite 0]
      [Finite (- 1), Finite 1] =
      [Finite 1, Finite (- 1)]"
    by (simp only: zip_Cons_Cons zip_Nil list.map prod.case f1 f2)
  have squares: "map (\<lambda>d. fl_mul d d) [Finite 1, Finite (- 1)] =
      [Finite 1, Finite 1]"
    by (simp only: list.map f3 f4)
  have total: "np_sum [Finite 1, Finite 1] = Finite 2"
    by (simp only: np_sum_def) (simp only: pairwise_sum_short list.size foldl.simps f5 f6 f7)
  show ?thesis
    by (simp only: series_dist_def normalized_steep(2) normalized_0_1(2) np_sub_def same_length if_True
        and_then_Inr differences squares total)
qed

lemma scores_scaled_prices:
  "distance_loop scaled_prices (stock_pairs scaled_prices) [] =
     Inr [(Finite (1 / 2 ^ 104), ''A'', ''B''), (Finite 0, ''A'', ''C''), (Finite (1 / 2 ^ 104), ''B'', ''C'')]"
  by (simp add: scaled_prices_def stock_pairs_def stock_names_def pair_dist_def getitem_def
      series_dist_0_0_1_0_0_3 series_dist_0_0_1_0_0_1 series_dist_0_0_3_0_0_1)

lemma distance_scaled_market:
  "fst (distance scaled_market 1) = Inr [(''A'', ''C'')]"
  by (simp add: distance_def scaled_market_def scores_scaled_prices sorted_key0_def slice_to_def Let_def)

lemma scores_tenth_prices:
  "distance_loop tenth_prices (stock_pairs tenth_prices) [] = Inr [(Finite 6, ''K'', ''B'')]"
  by (simp add: tenth_prices_def stock_pairs_def stock_names_def pair_dist_def getitem_def
      series_dist_tenths_1_2_3)

lemma scores_steep_prices:
  "distance_loop steep_prices (stock_pairs steep_prices) [] = Inr [(Finite 2, ''A'', ''B'')]"
  by (simp add: steep_prices_def stock_pairs_def stock_names_def pair_dist_def getitem_def
      series_dist_steep_0_1)

section \<open>Claims\<close>

subsection \<open>C1\<close>



subsection \<open>C2\<close>

text \<open>
  C2. When the test of every pair returns a p-value, the cointegration screener returns
  the triples \<open>(A, B, p_value)\<close> of exactly the pairs with \<open>p_value < sig_level\<close>, in
  the order of the enumeration: a triple is in the result if and only if its pair is
  enumerated, its third component is the p-value of the pair and that p-value is
  strictly below the threshold; no triple carries a p-value equal to the threshold.
\<close>

theorem coint_selects:
  assumes "\<forall>pr \<in> set (stock_pairs (table w)). p_value_of lib (table w) icpt pr = Inr (pv pr)"
  shows "\<exists>res. fst (coint lib w icpt sig) = Inr res
     \<and> res = map (\<lambda>pr. (fst pr, snd pr, pv pr))
               (filter (\<lambda>pr. fl_less (pv pr) sig) (stock_pairs (table w)))
     \<and> (\<forall>a b p. (a, b, p) \<in> set res \<longleftrightarrow>
           (a, b) \<in> set (stock_pairs (table w)) \<and> p = pv (a, b) \<and> fl_less p sig)
     \<and> (\<forall>a b. (a, b, sig) \<notin> set res)"
proof -
  let ?res = "map (\<lambda>pr. (fst pr, snd pr, pv pr))
               (filter (\<lambda>pr. fl_less (pv pr) sig) (stock_pairs (table w)))"
  have run: "fst (coint lib w icpt sig) = Inr ?res"
    using coint_loop_returns [OF assms, of sig "[]"] by (simp add: coint_def)
  have mem: "(a, b, p) \<in> set ?res \<longleftrightarrow>
      (a, b) \<in> set (stock_pairs (table w)) \<and> p = pv (a, b) \<and> fl_less p sig" for a b p
    by (auto simp: image_iff)
  have "(a, b, sig) \<notin> set ?res" for a b
    using mem [of a b sig] by (simp add: fl_less_irrefl)
  with run mem show ?thesis by blast
qed

text \<open>
  C2 on the example table with the stand-in library: the third pair has a p-value equal
  to the threshold and is left out.
\<close>

theorem coint_selects_witness:
  "stock_pairs (table p_market) = [(''P'', ''Q''), (''P'', ''R''), (''Q'', ''R'')]
   \<and> p_value_of stub_lib (table p_market) True (''P'', ''Q'') = Inr (Finite (1 / 200))
   \<and> p_value_of stub_lib (table p_market) True (''P'', ''R'') = Inr (Finite (1 / 200))
   \<and> p_value_of stub_lib (table p_market) True (''Q'', ''R'') = Inr (Finite (1 / 100))
   \<and> fst (coint stub_lib p_market True (Finite (1 / 100))) =
       Inr [(''P'', ''Q'', Finite (1 / 200)), (''P'', ''R'', Finite (1 / 200))]"
proof -
  have pairs: "stock_pairs (table p_market) = [(''P'', ''Q''), (''P'', ''R''), (''Q'', ''R'')]"
    by (simp add: p_market_def p_table_def stock_pairs_def stock_names_def)
  have tests: "\<forall>pr \<in> set (stock_pairs (table p_market)).
      p_value_of stub_lib (table p_market) True pr = Inr (first_or_nan (projr (getitem p_table (fst pr))))"
    unfolding pairs
    by (simp add: p_market_def p_table_def p_value_of_def getitem_def stub_lib_def first_or_nan_def)
  from coint_selects [OF tests, of "Finite (1 / 100)"]
  have "fst (coint stub_lib p_market True (Finite (1 / 100))) =
      Inr (map (\<lambda>pr. (fst pr, snd pr, first_or_nan (projr (getitem p_table (fst pr)))))
        (filter (\<lambda>pr. fl_less (first_or_nan (projr (getitem p_table (fst pr)))) (Finite (1 / 100)))
          (stock_pairs (table p_market))))"
    by blast
  then have "fst (coint stub_lib p_market True (Finite (1 / 100))) =
       Inr [(''P'', ''Q'', Finite (1 / 200)), (''P'', ''R'', Finite (1 / 200))]"
    unfolding pairs by (simp add: p_table_def getitem_def first_or_nan_def)
  moreover have "p_value_of stub_lib (table p_market) True (''P'', ''Q'') = Inr (Finite (1 / 200))"
      "p_value_of stub_lib (table p_market) True (''P'', ''R'') = Inr (Finite (1 / 200))"
      "p_value_of stub_lib (table p_market) True (''Q'', ''R'') = Inr (Finite (1 / 100))"
    by (simp_all add: p_market_def p_table_def p_value_of_def getitem_def stub_lib_def first_or_nan_def)
  ultimately show ?thesis using pairs by (intro conjI)
qed

subsection \<open>C4\<close>




subsection \<open>C5\<close>

text \<open>
  C5 fails on the code when a distance is NaN. On the example table with a constant first
  column the two pairs of that column have the distance NaN and the third pair the
  distance 8; no comparison with NaN holds, the sort leaves the list as it was scored, and
  with \<open>n = 1\<close> the call returns a pair without a distance and leaves out the closest
  pair; with \<open>n = 3\<close> the list returned is not in ascending order of distance.
\<close>

theorem nan_distance_ranked_first:
  "distance_loop (table flat_market) (stock_pairs (table flat_market)) [] =
     Inr [(NaN, ''K'', ''B''), (NaN, ''K'', ''C''), (Finite 8, ''B'', ''C'')]
   \<and> sorted_key0 [(NaN, ''K'', ''B''), (NaN, ''K'', ''C''), (Finite 8, ''B'', ''C'')] =
       [(NaN, ''K'', ''B''), (NaN, ''K'', ''C''), (Finite 8, ''B'', ''C'')]
   \<and> \<not> fl_less NaN (Finite 8) \<and> \<not> fl_less (Finite 8) NaN \<and> \<not> fl_less NaN NaN
   \<and> fst (distance flat_market 1) = Inr [(''K'', ''B'')]
   \<and> fst (distance flat_market 3) = Inr [(''K'', ''B''), (''K'', ''C''), (''B'', ''C'')]
   \<and> \<not> fl_le NaN (Finite 8)"
proof -
  have "distance_loop (table flat_market) (stock_pairs (table flat_market)) [] =
     Inr [(NaN, ''K'', ''B''), (NaN, ''K'', ''C''), (Finite 8, ''B'', ''C'')]"
    by (simp add: flat_market_def scores_flat_prices)
  moreover have "sorted_key0 [(NaN, ''K'', ''B''), (NaN, ''K'', ''C''), (Finite 8, ''B'', ''C'')] =
       [(NaN, ''K'', ''B''), (NaN, ''K'', ''C''), (Finite 8, ''B'', ''C'')]"
    by (simp add: sorted_key0_def)
  moreover have "fst (distance flat_market 1) = Inr [(''K'', ''B'')]"
    and "fst (distance flat_market 3) = Inr [(''K'', ''B''), (''K'', ''C''), (''B'', ''C'')]"
    by (simp_all add: distance_flat_market slice_to_def)
  ultimately show ?thesis by (simp add: fl_le_def)
qed

subsection \<open>C6\<close>

text \<open>
  C6, as the code has it. Neither screener validates its arguments. With fewer than two
  columns both return the empty list and raise nothing, whatever \<open>n\<close> and
  \<open>sig_level\<close> are; an exception of either screener is the exception of the processing
  of one of the pairs (a library call or an array operation that fails), never one
  about the arguments; with \<open>n = 0\<close> the distance screener returns the empty list on
  every well-formed table.
\<close>

theorem no_input_validation:
  "(length (table w) < 2 \<longrightarrow>
      coint lib w icpt sig = (Inr [], w) \<and> fst (distance w n) = Inr [])
   \<and> (\<forall>e. fst (coint lib w icpt sig) = Inl e \<longrightarrow>
        (\<exists>pr \<in> set (stock_pairs (table w)). p_value_of lib (table w) icpt pr = Inl e))
   \<and> (\<forall>e. fst (distance w n) = Inl e \<longrightarrow>
        (\<exists>pr \<in> set (stock_pairs (table w)). pair_dist (table w) pr = Inl e))
   \<and> (well_formed (table w) \<longrightarrow> fst (distance w 0) = Inr [])"
proof (intro conjI allI impI)
  show "coint lib w icpt sig = (Inr [], w)" if "length (table w) < 2"
    using that by (rule coint_short)
  show "fst (distance w n) = Inr []" if "length (table w) < 2"
    using that by (rule distance_short)
  show "\<exists>pr \<in> set (stock_pairs (table w)). p_value_of lib (table w) icpt pr = Inl e"
    if "fst (coint lib w icpt sig) = Inl e" for e
    using that by (intro coint_loop_raises [of lib "table w" icpt sig _ "[]"]) (simp add: coint_def)
  show "\<exists>pr \<in> set (stock_pairs (table w)). pair_dist (table w) pr = Inl e"
    if "fst (distance w n) = Inl e" for e
  proof (cases "distance_loop (table w) (stock_pairs (table w)) []")
    case (Inl e')
    with that have "e' = e" by (simp add: distance_def)
    with Inl show ?thesis by (intro distance_loop_raises [of "table w" _ "[]"]) simp
  next
    case (Inr scored)
    with that show ?thesis by (simp add: distance_def Let_def split: if_splits)
  qed
  show "fst (distance w 0) = Inr []" if "well_formed (table w)"
  proof -
    from distance_loop_well_formed [OF that] obtain scored
      where "distance_loop (table w) (stock_pairs (table w)) [] = Inr scored" by blast
    from distance_result [OF this, of 0] show ?thesis by simp
  qed
qed

text \<open>
  C6 on a table of one column with arguments out of range, on a library whose unit-root
  test raises, on columns of different lengths (which no pandas frame has), and on the
  example table with \<open>n = 0\<close>.
\<close>

theorem no_input_validation_witness:
  "length (table lone_market) < 2
   \<and> coint stub_lib lone_market True (Finite 2) = (Inr [], lone_market)
   \<and> fst (distance lone_market (- 3)) = Inr []
   \<and> fst (coint failing_lib market True (Finite (1 / 100))) = Inl (LibraryError ''sample size is too short'')
   \<and> (\<exists>pr. pr \<in> set (stock_pairs (table market))
        \<and> p_value_of failing_lib (table market) True pr = Inl (LibraryError ''sample size is too short''))
   \<and> fst (distance ragged_market 10) = Inl ValueError
   \<and> (\<exists>pr. pr \<in> set (stock_pairs (table ragged_market))
        \<and> pair_dist (table ragged_market) pr = Inl ValueError)
   \<and> well_formed (table market)
   \<and> fst (distance market 0) = Inr []"
proof -
  have short: "length (table lone_market) < 2"
    by (simp add: lone_market_def)
  note lone = no_input_validation [where w = lone_market and lib = stub_lib and icpt = True
      and sig = "Finite 2" and n = "- 3"]
  have c1: "coint stub_lib lone_market True (Finite 2) = (Inr [], lone_market)"
    and c2: "fst (distance lone_market (- 3)) = Inr []"
    using lone [THEN conjunct1, rule_format, OF short] by simp_all
  have raise1: "fst (coint failing_lib market True (Finite (1 / 100))) = Inl (LibraryError ''sample size is too short'')"
    by (simp add: coint_def market_def prices_def stock_pairs_def stock_names_def
        p_value_of_def getitem_def failing_lib_def stub_lib_def)
  note m = no_input_validation [where w = market and lib = failing_lib and icpt = True
      and sig = "Finite (1 / 100)" and n = 0]
  have c3: "\<exists>pr. pr \<in> set (stock_pairs (table market))
        \<and> p_value_of failing_lib (table market) True pr = Inl (LibraryError ''sample size is too short'')"
    using m [THEN conjunct2, THEN conjunct1, rule_format, OF raise1] by blast
  have raise2: "fst (distance ragged_market 10) = Inl ValueError"
    by (simp add: distance_def ragged_market_def stock_pairs_def stock_names_def pair_dist_def
        getitem_def series_dist_def normalize_series_def np_sub_def)
  note r = no_input_validation [where w = ragged_market and lib = stub_lib and icpt = True
      and sig = "Finite 2" and n = 10]
  have c4: "\<exists>pr. pr \<in> set (stock_pairs (table ragged_market))
        \<and> pair_dist (table ragged_market) pr = Inl ValueError"
    using r [THEN conjunct2, THEN conjunct2, THEN conjunct1, rule_format, OF raise2] by blast
  have wf: "well_formed (table market)"
    by (simp add: market_def well_formed_prices)
  have c5: "fst (distance market 0) = Inr []"
    using m [THEN conjunct2, THEN conjunct2, THEN conjunct2, rule_format, OF wf] .
  from short c1 c2 raise1 c3 raise2 c4 wf c5 show ?thesis by (intro conjI)
qed

text \<open>
  C6 as stated fails: a table of one column, \<open>n = 0\<close>, and a threshold of 2 each give
  a result and no error.
\<close>

theorem no_input_validation_counterexample:
  "fst (coint stub_lib lone_market True (Finite (1 / 100))) = Inr []
   \<and> fst (distance lone_market 10) = Inr []
   \<and> fst (distance market 0) = Inr []
   \<and> fst (coint stub_lib p_market True (Finite 2)) =
       Inr [(''P'', ''Q'', Finite (1 / 200)), (''P'', ''R'', Finite (1 / 200)), (''Q'', ''R'', Finite (1 / 100))]"
proof (intro conjI)
  show "fst (coint stub_lib lone_market True (Finite (1 / 100))) = Inr []"
    by (simp add: coint_def lone_market_def stock_pairs_def stock_names_def)
  show "fst (distance lone_market 10) = Inr []"
    by (simp add: distance_def lone_market_def stock_pairs_def stock_names_def sorted_key0_def
        slice_to_def Let_def)
  show "fst (distance market 0) = Inr []"
    by (simp add: distance_market slice_to_def)
  show "fst (coint stub_lib p_market True (Finite 2)) =
       Inr [(''P'', ''Q'', Finite (1 / 200)), (''P'', ''R'', Finite (1 / 200)), (''Q'', ''R'', Finite (1 / 100))]"
    by (simp add: coint_def p_market_def p_table_def stock_pairs_def stock_names_def
        p_value_of_def getitem_def stub_lib_def first_or_nan_def)
qed

subsection \<open>C7\<close>

text \<open>
  C7, as the code has it. In a well-formed table with a column whose standard deviation,
  as \<open>np.std\<close> computes it, is zero, the call raises nothing and skips nothing: every
  pair of the enumeration is scored, every pair with that column gets NaN or the
  positive infinity as its distance and stays in the scored list; the call prints one
  list, made of scored entries with their distances, all of them when there are at most
  ten; it returns pairs of the enumeration, all of them when \<open>n\<close> is at least their
  number.
\<close>

theorem constant_column_kept:
  assumes "well_formed (table w)" and "(k, sk) \<in> set (table w)" and "np_std sk = Finite 0"
  shows "\<exists>scored. distance_loop (table w) (stock_pairs (table w)) [] = Inr scored
     \<and> map snd scored = stock_pairs (table w)
     \<and> (\<forall>x \<in> set scored. fst (snd x) = k \<or> snd (snd x) = k \<longrightarrow> fst x = NaN \<or> fst x = PInf)
     \<and> (\<exists>res. fst (distance w n) = Inr res \<and> mset res \<subseteq># mset (stock_pairs (table w))
          \<and> (int (length (stock_pairs (table w))) \<le> n \<longrightarrow> mset res = mset (stock_pairs (table w))))
     \<and> (\<exists>out. stdout (snd (distance w n)) = stdout w @ [out] \<and> mset out \<subseteq># mset scored
          \<and> (length scored \<le> 10 \<longrightarrow> mset out = mset scored))"
proof -
  from distance_loop_well_formed [OF assms(1)] obtain scored
    where run: "distance_loop (table w) (stock_pairs (table w)) [] = Inr scored" by blast
  from distance_loop_scored [OF run]
  have pairs: "map snd scored = stock_pairs (table w)"
    and scores: "\<forall>x \<in> set scored. pair_dist (table w) (snd x) = Inr (fst x)"
    by auto
  have degenerate: "\<forall>x \<in> set scored. fst (snd x) = k \<or> snd (snd x) = k \<longrightarrow> fst x = NaN \<or> fst x = PInf"
  proof (intro ballI impI)
    fix x assume x: "x \<in> set scored" and t: "fst (snd x) = k \<or> snd (snd x) = k"
    from x pairs have "snd x \<in> set (stock_pairs (table w))"
      by (metis image_eqI set_map)
    from pair_dist_std_zero [OF assms(1,2,3) this t] scores x
    show "fst x = NaN \<or> fst x = PInf" by auto
  qed
  let ?out = "slice_to (sorted_key0 scored) 10"
  have printed: "stdout (snd (distance w n)) = stdout w @ [?out]"
    by (rule distance_prints [OF run])
  have part: "mset ?out \<subseteq># mset scored"
    using mset_slice_to [of "sorted_key0 scored" 10] by (simp add: mset_sorted_key0)
  have whole: "mset ?out = mset scored" if "length scored \<le> 10"
    using that by (simp add: slice_to_def length_sorted_key0 mset_sorted_key0)
  from printed part whole
  have "\<exists>out. stdout (snd (distance w n)) = stdout w @ [out] \<and> mset out \<subseteq># mset scored
          \<and> (length scored \<le> 10 \<longrightarrow> mset out = mset scored)"
    by blast
  with run pairs degenerate distance_returns_some [OF run, of n] show ?thesis by blast
qed

text \<open>C7 on the example table with a constant first column, \<open>n = 3\<close>.\<close>

theorem constant_column_kept_witness:
  "well_formed (table flat_market)
   \<and> (''K'', [Finite 1, Finite 1]) \<in> set (table flat_market)
   \<and> np_std [Finite 1, Finite 1] = Finite 0
   \<and> distance_loop (table flat_market) (stock_pairs (table flat_market)) [] =
       Inr [(NaN, ''K'', ''B''), (NaN, ''K'', ''C''), (Finite 8, ''B'', ''C'')]
   \<and> (\<exists>res. fst (distance flat_market 3) = Inr res
        \<and> mset res = mset [(''K'', ''B''), (''K'', ''C''), (''B'', ''C'')])
   \<and> (\<exists>out. stdout (snd (distance flat_market 3)) = [out]
        \<and> mset out = mset [(NaN, ''K'', ''B''), (NaN, ''K'', ''C''), (Finite 8, ''B'', ''C'')])"
proof -
  have wf: "well_formed (table flat_market)"
    by (simp add: flat_market_def well_formed_flat_prices)
  have col: "(''K'', [Finite 1, Finite 1]) \<in> set (table flat_market)"
    by (simp add: flat_market_def flat_prices_def)
  have run: "distance_loop (table flat_market) (stock_pairs (table flat_market)) [] =
       Inr [(NaN, ''K'', ''B''), (NaN, ''K'', ''C''), (Finite 8, ''B'', ''C'')]"
    by (simp add: flat_market_def scores_flat_prices)
  have p: "stock_pairs (table flat_market) = [(''K'', ''B''), (''K'', ''C''), (''B'', ''C'')]"
    by (simp add: flat_market_def flat_prices_def stock_pairs_def stock_names_def)
  have e: "stdout flat_market = []"
    by (simp add: flat_market_def)
  from constant_column_kept [where w = flat_market and k = "''K''" and sk = "[Finite 1, Finite 1]"
      and n = 3, OF wf col np_std_flat]
  obtain scored res out
    where s: "distance_loop (table flat_market) (stock_pairs (table flat_market)) [] = Inr scored"
      and r: "fst (distance flat_market 3) = Inr res"
      and ra: "int (length (stock_pairs (table flat_market))) \<le> 3 \<longrightarrow>
                 mset res = mset (stock_pairs (table flat_market))"
      and o: "stdout (snd (distance flat_market 3)) = stdout flat_market @ [out]"
      and oa: "length scored \<le> 10 \<longrightarrow> mset out = mset scored"
    by blast
  from s run have sc: "scored = [(NaN, ''K'', ''B''), (NaN, ''K'', ''C''), (Finite 8, ''B'', ''C'')]"
    by simp
  from ra have "mset res = mset [(''K'', ''B''), (''K'', ''C''), (''B'', ''C'')]"
    by (simp add: p)
  with r have c1: "\<exists>res. fst (distance flat_market 3) = Inr res
        \<and> mset res = mset [(''K'', ''B''), (''K'', ''C''), (''B'', ''C'')]"
    by blast
  from oa have "mset out = mset [(NaN, ''K'', ''B''), (NaN, ''K'', ''C''), (Finite 8, ''B'', ''C'')]"
    by (simp add: sc)
  with o e have c2: "\<exists>out. stdout (snd (distance flat_market 3)) = [out]
        \<and> mset out = mset [(NaN, ''K'', ''B''), (NaN, ''K'', ''C''), (Finite 8, ''B'', ''C'')]"
    by simp
  from wf col np_std_flat run c1 c2 show ?thesis by (intro conjI)
qed

text \<open>
  C7 as stated fails. On a table of a constant column of ones and another column, the
  call raises nothing, returns the one pair, which has the constant column, and prints
  its NaN distance. On a constant column of the binary64 value nearest to 0.1 the
  standard deviation that \<open>np.std\<close> computes is not zero but \<open>2\<^sup>-\<^sup>5\<^sup>6\<close>, the
  column normalizes to \<open>[-1, -1, -1]\<close>, and its pair gets the distance 6 like any
  other.
\<close>

theorem constant_column_kept_counterexample:
  "np_std [Finite 1, Finite 1] = Finite 0
   \<and> pair_dist (table two_market) (''K'', ''B'') = Inr NaN
   \<and> distance two_market 10 =
       (Inr [(''K'', ''B'')], \<lparr>table = two_columns, stdout = [[(NaN, ''K'', ''B'')]]\<rparr>)
   \<and> np_std tenths = Finite (1 / 2 ^ 56)
   \<and> normalize_series tenths = [Finite (- 1), Finite (- 1), Finite (- 1)]
   \<and> distance tenth_market 10 =
       (Inr [(''K'', ''B'')], \<lparr>table = tenth_prices, stdout = [[(Finite 6, ''K'', ''B'')]]\<rparr>)"
proof -
  have "pair_dist (table two_market) (''K'', ''B'') = Inr NaN"
    by (simp add: two_market_def two_columns_def eval_distance)
  moreover have "distance two_market 10 =
       (Inr [(''K'', ''B'')], \<lparr>table = two_columns, stdout = [[(NaN, ''K'', ''B'')]]\<rparr>)"
    by (simp add: distance_def two_market_def scores_two_columns sorted_key0_def slice_to_def Let_def)
  moreover have "distance tenth_market 10 =
       (Inr [(''K'', ''B'')], \<lparr>table = tenth_prices, stdout = [[(Finite 6, ''K'', ''B'')]]\<rparr>)"
    by (simp add: distance_def tenth_market_def scores_tenth_prices sorted_key0_def slice_to_def Let_def)
  ultimately show ?thesis
    using np_std_flat normalized_tenths by (intro conjI)
qed

subsection \<open>C8\<close>

text \<open>
  C8, on the store of arrays. Let every address of the frame be allocated, and let
  each call of statsmodels leave the arrays allocated before it as they are and return
  what its arguments' contents determine. Then a call of either screener leaves every
  array allocated before it, and the frame, as they were: the table after the call is
  the table before it, and \<open>coint\<close> prints nothing. A second call with the same
  arguments, in the state the first one left (new arrays allocated, and for \<open>distance\<close>
  one more list printed), returns what the first returned. Each screener on the store
  returns what it returns on the table the store holds.
\<close>

theorem screeners_repeatable:
  assumes "frame_ok pw" and "reads_only calls lib"
  shows "fst (distance_at (snd (distance_at pw n)) n) = fst (distance_at pw n)
     \<and> fst (coint_at calls (snd (coint_at calls pw icpt sig)) icpt sig) = fst (coint_at calls pw icpt sig)
     \<and> prefix (heap pw) (heap (snd (distance_at pw n)))
     \<and> frame (snd (distance_at pw n)) = frame pw
     \<and> table (contents (snd (distance_at pw n))) = table (contents pw)
     \<and> prefix (heap pw) (heap (snd (coint_at calls pw icpt sig)))
     \<and> frame (snd (coint_at calls pw icpt sig)) = frame pw
     \<and> contents (snd (coint_at calls pw icpt sig)) = contents pw
     \<and> fst (distance_at pw n) = fst (distance (contents pw) n)
     \<and> fst (coint_at calls pw icpt sig) = fst (coint lib (contents pw) icpt sig)"
proof -
  let ?d = "snd (distance_at pw n)" and ?c = "snd (coint_at calls pw icpt sig)"
  note d = distance_at_result [OF assms(1), of n]
  note c = coint_at_result [OF assms(2,1), of icpt sig]
  note da = contents_after [OF assms(1) d(2) d(3)]
  note ca = contents_after [OF assms(1) c(2) c(3)]
  have "fst (distance_at ?d n) = fst (distance (contents ?d) n)"
    by (rule distance_at_result(1) [OF da(1)])
  also have "\<dots> = fst (distance (contents pw) n)"
    by (rule distance_reads_table [OF da(2)])
  finally have again_d: "fst (distance_at ?d n) = fst (distance_at pw n)"
    by (simp add: d(1))
  have "fst (coint_at calls ?c icpt sig) = fst (coint lib (contents ?c) icpt sig)"
    by (rule coint_at_result(1) [OF assms(2) ca(1)])
  also have "\<dots> = fst (coint lib (contents pw) icpt sig)"
    by (simp add: coint_def ca(2))
  finally have again_c: "fst (coint_at calls ?c icpt sig) = fst (coint_at calls pw icpt sig)"
    by (simp add: c(1))
  have same: "contents ?c = contents pw"
    using ca(2) c(4) by (simp add: contents_def)
  from again_d again_c d c da(2) same show ?thesis by (intro conjI)
qed

text \<open>
  C8 on the example table in a store, with the stand-in library allocating its results.
\<close>

theorem screeners_repeatable_witness:
  "frame_ok market_store
   \<and> reads_only (calls_of stub_lib) stub_lib
   \<and> contents market_store = market
   \<and> fst (distance_at market_store 2) = Inr [(''A'', ''B''), (''A'', ''C'')]
   \<and> fst (distance_at (snd (distance_at market_store 2)) 2) = Inr [(''A'', ''B''), (''A'', ''C'')]
   \<and> table (contents (snd (distance_at market_store 2))) = prices
   \<and> fst (coint_at (calls_of stub_lib) market_store True (Finite 2)) =
       Inr [(''A'', ''B'', Finite 0), (''A'', ''C'', Finite 0), (''B'', ''C'', Finite 1)]
   \<and> fst (coint_at (calls_of stub_lib) (snd (coint_at (calls_of stub_lib) market_store True (Finite 2)))
         True (Finite 2)) =
       Inr [(''A'', ''B'', Finite 0), (''A'', ''C'', Finite 0), (''B'', ''C'', Finite 1)]
   \<and> contents (snd (coint_at (calls_of stub_lib) market_store True (Finite 2))) = market"
proof -
  have ok: "frame_ok market_store"
    by (simp add: frame_ok_def market_store_def)
  have ro: "reads_only (calls_of stub_lib) stub_lib"
    by (rule reads_only_calls_of)
  have m: "contents market_store = market"
    by (simp add: contents_def market_store_def market_def prices_def)
  have dv: "fst (distance market 2) = Inr [(''A'', ''B''), (''A'', ''C'')]"
    by (simp add: distance_market slice_to_def)
  have cv: "fst (coint stub_lib market True (Finite 2)) =
       Inr [(''A'', ''B'', Finite 0), (''A'', ''C'', Finite 0), (''B'', ''C'', Finite 1)]"
    by (simp add: coint_def market_def prices_def stock_pairs_def stock_names_def
        p_value_of_def getitem_def stub_lib_def first_or_nan_def)
  note t = screeners_repeatable [where pw = market_store and calls = "calls_of stub_lib"
      and lib = stub_lib and n = 2 and icpt = True and sig = "Finite 2", OF ok ro]
  have t1: "fst (distance_at (snd (distance_at market_store 2)) 2) = fst (distance_at market_store 2)"
    and t2: "fst (coint_at (calls_of stub_lib) (snd (coint_at (calls_of stub_lib) market_store True (Finite 2)))
         True (Finite 2)) = fst (coint_at (calls_of stub_lib) market_store True (Finite 2))"
    and t3: "table (contents (snd (distance_at market_store 2))) = table (contents market_store)"
    and t4: "contents (snd (coint_at (calls_of stub_lib) market_store True (Finite 2))) = contents market_store"
    and t5: "fst (distance_at market_store 2) = fst (distance (contents market_store) 2)"
    and t6: "fst (coint_at (calls_of stub_lib) market_store True (Finite 2)) =
        fst (coint stub_lib (contents market_store) True (Finite 2))"
    using t by blast+
  have d1: "fst (distance_at market_store 2) = Inr [(''A'', ''B''), (''A'', ''C'')]"
    by (simp only: t5 m dv)
  have d2: "fst (distance_at (snd (distance_at market_store 2)) 2) = Inr [(''A'', ''B''), (''A'', ''C'')]"
    by (simp only: t1 d1)
  have d3: "table (contents (snd (distance_at market_store 2))) = prices"
    by (simp add: t3 m market_def)
  have c1: "fst (coint_at (calls_of stub_lib) market_store True (Finite 2)) =
       Inr [(''A'', ''B'', Finite 0), (''A'', ''C'', Finite 0), (''B'', ''C'', Finite 1)]"
    by (simp only: t6 m cv)
  have c2: "fst (coint_at (calls_of stub_lib) (snd (coint_at (calls_of stub_lib) market_store True (Finite 2)))
         True (Finite 2)) =
       Inr [(''A'', ''B'', Finite 0), (''A'', ''C'', Finite 0), (''B'', ''C'', Finite 1)]"
    by (simp only: t2 c1)
  have c3: "contents (snd (coint_at (calls_of stub_lib) market_store True (Finite 2))) = market"
    by (simp only: t4 m)
  from ok ro m d1 d2 d3 c1 c2 c3 show ?thesis by (intro conjI)
qed

subsection \<open>C9\<close>

text \<open>
  C9 fails on the code for a negative \<open>n\<close>: the slice \<open>[:n]\<close> then drops the last
  \<open>-n\<close> entries instead of being empty. On the example table of three pairs, \<open>n = -1\<close>
  returns the two closest pairs; \<open>n = 0\<close> returns none.
\<close>

theorem negative_n_returns_pairs:
  "fst (distance market (- 1)) = Inr [(''A'', ''B''), (''A'', ''C'')]
   \<and> fst (distance market 0) = Inr []"
  by (simp add: distance_market slice_to_def)

subsection \<open>C10\<close>

text \<open>
  C10. A pair whose test returns NaN as p-value leaves no trace: the call returns what
  the loop returns on the enumeration without that pair, the state is unchanged (nothing
  is reported), since \<open>NaN < sig_level\<close> is false; no returned triple carries NaN.
\<close>

theorem nan_p_value_dropped:
  assumes "p_value_of lib (table w) icpt pr = Inr NaN"
    and "stock_pairs (table w) = before @ pr # rest"
  shows "coint lib w icpt sig = (coint_loop lib (table w) icpt sig (before @ rest) [], w)
       \<and> \<not> fl_less NaN sig
       \<and> (\<forall>res. fst (coint lib w icpt sig) = Inr res \<longrightarrow> (\<forall>t \<in> set res. snd (snd t) \<noteq> NaN))"
proof (intro conjI allI impI)
  have step: "coint_loop lib (table w) icpt sig (pr # rest) = coint_loop lib (table w) icpt sig rest"
    using assms(1) by (intro ext) simp
  have "coint_loop lib (table w) icpt sig (before @ pr # rest) [] =
      coint_loop lib (table w) icpt sig (before @ rest) []"
    by (simp only: coint_loop_append step)
  then show "coint lib w icpt sig = (coint_loop lib (table w) icpt sig (before @ rest) [], w)"
    by (simp add: coint_def assms(2))
  show "\<not> fl_less NaN sig" by simp
  fix res
  assume "fst (coint lib w icpt sig) = Inr res"
  then have run: "coint_loop lib (table w) icpt sig (stock_pairs (table w)) [] = Inr res"
    by (simp add: coint_def)
  show "\<forall>t \<in> set res. snd (snd t) \<noteq> NaN"
    unfolding coint_loop_result [OF run] by auto
qed

text \<open>
  C10 on the example table, the direct test of the stand-in library: the second pair has
  a NaN p-value.
\<close>

theorem nan_p_value_dropped_witness:
  "p_value_of stub_lib (table p_market) False (''P'', ''R'') = Inr NaN
   \<and> stock_pairs (table p_market) = [(''P'', ''Q'')] @ (''P'', ''R'') # [(''Q'', ''R'')]
   \<and> coint stub_lib p_market False (Finite (1 / 50)) = (Inr [(''P'', ''Q'', Finite (1 / 100))], p_market)"
proof -
  have nan: "p_value_of stub_lib (table p_market) False (''P'', ''R'') = Inr NaN"
    by (simp add: p_market_def p_table_def p_value_of_def getitem_def stub_lib_def first_or_nan_def)
  have pairs: "stock_pairs (table p_market) = [(''P'', ''Q'')] @ (''P'', ''R'') # [(''Q'', ''R'')]"
    by (simp add: p_market_def p_table_def stock_pairs_def stock_names_def)
  note t = nan_p_value_dropped [where lib = stub_lib and w = p_market and icpt = False
      and pr = "(''P'', ''R'')" and before = "[(''P'', ''Q'')]" and rest = "[(''Q'', ''R'')]"
      and sig = "Finite (1 / 50)"]
  have dropped: "coint stub_lib p_market False (Finite (1 / 50)) =
      (coint_loop stub_lib (table p_market) False (Finite (1 / 50)) ([(''P'', ''Q'')] @ [(''Q'', ''R'')]) [], p_market)"
    by (rule t [OF nan pairs, THEN conjunct1])
  have "coint stub_lib p_market False (Finite (1 / 50)) = (Inr [(''P'', ''Q'', Finite (1 / 100))], p_market)"
    unfolding dropped
    by (simp add: p_market_def p_table_def p_value_of_def getitem_def stub_lib_def first_or_nan_def)
  with nan pairs show ?thesis by (intro conjI)
qed

end
